theory Spec2Isabelle
  imports Main "HOL-Library.AList" "HOL-Library.Char_ord" "HOL-Library.Dlist"
    "HOL-Library.List_Lexorder"
begin

section \<open>Python values used by the command-line entry point\<close>

subsection \<open>Exception classes and exception values\<close>

text \<open>
  The exception classes that \<^verbatim>\<open>compare50/__main__.py\<close> names or can meet, with
  Python's built-in hierarchy. \<open>ApiError\<close> is \<^verbatim>\<open>compare50._api.Error\<close> and
  \<open>Lib50Error\<close> is \<^verbatim>\<open>lib50.Error\<close>; \<open>Subclass n c\<close> is a class named \<open>n\<close>
  declared with the single base \<open>c\<close>.
\<close>

datatype pyclass =
    BaseException
  | Exception
  | KeyboardInterrupt
  | GeneratorExit
  | OSError
  | FileNotFoundError
  | IsADirectoryError
  | PermissionError
  | EOFError
  | ImportError
  | LookupError
  | KeyError
  | IndexError
  | ValueError
  | UnicodeError
  | UnicodeDecodeError
  | RuntimeError
  | ApiError
  | Lib50Error
  | Subclass string pyclass

text \<open>
  Modelled from the spec: the two domain error classes \<^verbatim>\<open>_api.Error\<close> and
  \<^verbatim>\<open>lib50.Error\<close> are declared outside \<^verbatim>\<open>__main__.py\<close>; they are ordinary
  exception classes, deriving from \<^verbatim>\<open>Exception\<close>.
\<close>

primrec mro :: "pyclass \<Rightarrow> pyclass list" where
  "mro BaseException = [BaseException]"
| "mro Exception = [Exception, BaseException]"
| "mro KeyboardInterrupt = [KeyboardInterrupt, BaseException]"
| "mro GeneratorExit = [GeneratorExit, BaseException]"
| "mro OSError = [OSError, Exception, BaseException]"
| "mro FileNotFoundError = [FileNotFoundError, OSError, Exception, BaseException]"
| "mro IsADirectoryError = [IsADirectoryError, OSError, Exception, BaseException]"
| "mro PermissionError = [PermissionError, OSError, Exception, BaseException]"
| "mro EOFError = [EOFError, Exception, BaseException]"
| "mro ImportError = [ImportError, Exception, BaseException]"
| "mro LookupError = [LookupError, Exception, BaseException]"
| "mro KeyError = [KeyError, LookupError, Exception, BaseException]"
| "mro IndexError = [IndexError, LookupError, Exception, BaseException]"
| "mro ValueError = [ValueError, Exception, BaseException]"
| "mro UnicodeError = [UnicodeError, ValueError, Exception, BaseException]"
| "mro UnicodeDecodeError =
     [UnicodeDecodeError, UnicodeError, ValueError, Exception, BaseException]"
| "mro RuntimeError = [RuntimeError, Exception, BaseException]"
| "mro ApiError = [ApiError, Exception, BaseException]"
| "mro Lib50Error = [Lib50Error, Exception, BaseException]"
| "mro (Subclass n c) = Subclass n c # mro c"

definition issubclass :: "pyclass \<Rightarrow> pyclass \<Rightarrow> bool" where
  "issubclass c d = (d \<in> set (mro c))"

text \<open>
  An exception value: its class, its \<^verbatim>\<open>args\<close> (the strings it was raised with) and,
  for the OS errors, its \<^verbatim>\<open>filename\<close> attribute (\<open>None\<close> is Python's \<^verbatim>\<open>None\<close>).
\<close>

record pyexc =
  exc_class :: pyclass
  exc_args :: "string list"
  exc_filename :: "string option"

definition raise_exc :: "pyclass \<Rightarrow> string list \<Rightarrow> pyexc" where
  "raise_exc c as = \<lparr>exc_class = c, exc_args = as, exc_filename = None\<rparr>"

subsection \<open>\<^verbatim>\<open>repr\<close> and \<^verbatim>\<open>str\<close>\<close>

text \<open>
  \<^verbatim>\<open>repr\<close> of a string, for ASCII text: single quotes unless the text has a single
  quote and no double quote; the quote and the backslash are escaped, tab, newline and
  carriage return are written \<^verbatim>\<open>\t \n \r\<close>, other control characters as
  \<^verbatim>\<open>\xNN\<close>.
\<close>

definition hexdigit :: "nat \<Rightarrow> char" where
  "hexdigit n = ''0123456789abcdef'' ! (n mod 16)"

definition repr_char :: "char \<Rightarrow> char \<Rightarrow> string" where
  "repr_char q c =
     (if c = q \<or> c = CHR 0x5C then [CHR 0x5C, c]
      else if c = CHR 0x09 then [CHR 0x5C, CHR ''t'']
      else if c = CHR 0x0A then [CHR 0x5C, CHR ''n'']
      else if c = CHR 0x0D then [CHR 0x5C, CHR ''r'']
      else if (of_char c :: nat) < 32 \<or> c = CHR 0x7F
        then [CHR 0x5C, CHR ''x'', hexdigit (of_char c div 16), hexdigit (of_char c)]
      else [c])"

definition repr_str :: "string \<Rightarrow> string" where
  "repr_str s =
     (let q = (if CHR 0x27 \<in> set s \<and> CHR 0x22 \<notin> set s then CHR 0x22 else CHR 0x27)
      in q # concat (map (repr_char q) s) @ [q])"

fun join :: "string \<Rightarrow> string list \<Rightarrow> string" where
  "join sep [] = []"
| "join sep [x] = x"
| "join sep (x # y # ys) = x @ sep @ join sep (y # ys)"

definition repr_list :: "string list \<Rightarrow> string" where
  "repr_list xs = ''['' @ join '', '' (map repr_str xs) @ '']''"

definition repr_tuple :: "string list \<Rightarrow> string" where
  "repr_tuple xs = ''('' @ join '', '' (map repr_str xs) @ '')''"

text \<open>\<^verbatim>\<open>str(exc)\<close> as \<^verbatim>\<open>BaseException.__str__\<close> computes it from \<^verbatim>\<open>args\<close>.\<close>

definition str_exc :: "pyexc \<Rightarrow> string" where
  "str_exc e =
     (case exc_args e of
        [] \<Rightarrow> []
      | [a] \<Rightarrow> a
      | _ \<Rightarrow> repr_tuple (exc_args e))"

text \<open>\<^verbatim>\<open>"{}".format(x)\<close> for an optional string: \<^verbatim>\<open>None\<close> prints as \<^verbatim>\<open>None\<close>.\<close>

definition format_opt :: "string option \<Rightarrow> string" where
  "format_opt x = (case x of None \<Rightarrow> ''None'' | Some s \<Rightarrow> s)"

text \<open>Decimal digits of a natural number, as an f-string prints an \<^verbatim>\<open>int\<close>.\<close>

fun str_nat :: "nat \<Rightarrow> string" where
  "str_nat n =
     (if n < 10 then [hexdigit n] else str_nat (n div 10) @ [hexdigit (n mod 10)])"

section \<open>Data of the run\<close>

text \<open>The class \<^verbatim>\<open>Preprocessor\<close>: the composed preprocessor of a pass.\<close>

datatype 'pp preprocessor = Preprocessor (preprocessors: "'pp list")

text \<open>\<^verbatim>\<open>Preprocessor.__call__\<close>: the preprocessors are applied in order.\<close>

fun Preprocessor_call :: "('t \<Rightarrow> 't) preprocessor \<Rightarrow> 't \<Rightarrow> 't" where
  "Preprocessor_call (Preprocessor []) tokens = tokens"
| "Preprocessor_call (Preprocessor (p # ps)) tokens =
     Preprocessor_call (Preprocessor ps) (p tokens)"

text \<open>
  Modelled from the spec: a pass of \<^verbatim>\<open>compare50._data\<close>, "a name bound to a
  (comparator variant, ordered preprocessor list) pair". The entry point reads its
  \<^verbatim>\<open>__name__\<close>, \<^verbatim>\<open>__doc__\<close> and \<^verbatim>\<open>preprocessors\<close>; the comparator is the
  opaque component \<open>'c\<close>.
\<close>

record ('c, 'pp) pass =
  pass_name :: string
  pass_doc :: "string option"
  pass_comparator :: 'c
  pass_preprocessors :: "'pp list"

text \<open>
  Modelled from the spec: a submission of \<^verbatim>\<open>compare50._data\<close>, with the three
  fields the entry point constructs it from: the root path, the list of relative file
  paths and the attached preprocessor.
\<close>

record ('p, 'f, 'pp) submission =
  path :: 'p
  files :: "'f list"
  preprocessor :: "'pp preprocessor"

datatype pattern_type = Included | Excluded

datatype file_pattern = FilePattern pattern_type string

datatype executor = Executor | FauxExecutor

datatype color = Red | Green | Yellow

datatype stream = Stdout | Stderr

text \<open>
  What the process does to the outside, in order: output, prompts, file removal,
  progress bar calls and the calls of the core's operations. Submissions are Python
  objects; a reference to one is its index in the heap.
\<close>

datatype ('p, 'f, 'c, 'pp, 'sc, 'rs) event =
    Cprint string color stream
  | Print string
  | Write stream string
  | PrintHelp
  | PrintException pyexc
  | Input 'p
  | OsRemove 'p
  | Rmtree 'p
  | ProfilerEnable
  | ProfilerStats string
  | ProgressBar string
  | ProgressUpdate nat
  | ProgressNew string
  | ProgressBarExit
  | Rank "nat list" "nat list" "'f set" "('c, 'pp) pass" int
  | Compare 'sc "'f set" "('c, 'pp) pass"
  | Render "(('c, 'pp) pass \<times> 'rs) list" 'p

text \<open>
  The mutable state of the process: the patterns of the \<^verbatim>\<open>SubmissionFactory\<close>, the
  heap of submission objects, the flag \<^verbatim>\<open>excepthook.verbose\<close>, the global
  \<^verbatim>\<open>_api.Executor\<close>, and the events so far.
\<close>

record ('p, 'f, 'c, 'pp, 'sc, 'rs) world =
  patterns :: "file_pattern list"
  heap :: "('p, 'f, 'pp) submission list"
  verbose :: bool
  api_Executor :: executor
  trace :: "('p, 'f, 'c, 'pp, 'sc, 'rs) event list"

definition emit ::
  "('p, 'f, 'c, 'pp, 'sc, 'rs) event \<Rightarrow> ('p, 'f, 'c, 'pp, 'sc, 'rs) world
     \<Rightarrow> ('p, 'f, 'c, 'pp, 'sc, 'rs) world" where
  "emit ev w = w\<lparr>trace := trace w @ [ev]\<rparr>"

text \<open>
  How a call ends: it returns a value, raises an exception, or calls
  \<^verbatim>\<open>sys.exit\<close> with a status.
\<close>

datatype 'a outcome = Return 'a | Raise pyexc | SysExit int

section \<open>\<^verbatim>\<open>excepthook\<close> and \<^verbatim>\<open>ArgParser.error\<close>\<close>

definition generic_message :: string where
  "generic_message = ''Sorry, something's wrong! Let sysadmins@cs50.harvard.edu know!''"

text \<open>The last two statements of \<^verbatim>\<open>excepthook\<close>: the traceback if verbose, then exit 1.\<close>

definition excepthook_exit ::
  "pyexc \<Rightarrow> ('p, 'f, 'c, 'pp, 'sc, 'rs) world
     \<Rightarrow> unit outcome \<times> ('p, 'f, 'c, 'pp, 'sc, 'rs) world" where
  "excepthook_exit exc w =
     (SysExit 1, if verbose w then emit (PrintException exc) w else w)"

definition excepthook ::
  "pyexc \<Rightarrow> ('p, 'f, 'c, 'pp, 'sc, 'rs) world
     \<Rightarrow> unit outcome \<times> ('p, 'f, 'c, 'pp, 'sc, 'rs) world" where
  "excepthook exc w =
     (let cls = exc_class exc in
      if (issubclass cls ApiError \<or> issubclass cls Lib50Error) \<and> exc_args exc \<noteq> [] then
        excepthook_exit exc (emit (Cprint (str_exc exc) Red Stderr) w)
      else if cls = FileNotFoundError then
        excepthook_exit exc
          (emit (Cprint (format_opt (exc_filename exc) @ '' not found'') Red Stderr) w)
      else if \<not> issubclass cls Exception \<and> \<not> issubclass cls KeyboardInterrupt then
        (Return (), w)
      else
        excepthook_exit exc (emit (Cprint generic_message Red Stderr) w))"

definition ArgParser_error ::
  "string \<Rightarrow> ('p, 'f, 'c, 'pp, 'sc, 'rs) world
     \<Rightarrow> 'a outcome \<times> ('p, 'f, 'c, 'pp, 'sc, 'rs) world" where
  "ArgParser_error message w =
     (SysExit 2, emit (Write Stderr (''error: '' @ message @ [CHR 0x0A])) (emit PrintHelp w))"

section \<open>The environment of a run\<close>

text \<open>
  Everything \<^verbatim>\<open>__main__.py\<close> calls but does not define, as parameters: the pass
  registry of \<^verbatim>\<open>_data.Pass\<close>, \<^verbatim>\<open>pathlib\<close> and the file system, \<^verbatim>\<open>lib50.files\<close>,
  the comparison of submissions that Python's \<^verbatim>\<open>set\<close> uses (two submissions are equal
  when their \<open>submission_key\<close> is), the built-in \<^verbatim>\<open>int\<close> and \<^verbatim>\<open>input\<close>, and the
  core's \<^verbatim>\<open>_api.rank\<close>, \<^verbatim>\<open>_api.compare\<close> and \<^verbatim>\<open>_renderer.render\<close>, which read the
  submission objects of the heap.

  \<open>open_read root f\<close> is \<^verbatim>\<open>open(root / f).read()\<close>: \<open>None\<close> when the text decodes,
  the exception otherwise. \<open>input_line\<close> is the line \<^verbatim>\<open>input\<close> returns, \<open>None\<close> for
  \<^verbatim>\<open>EOFError\<close>. \<open>os_remove p\<close> is \<open>None\<close> when \<^verbatim>\<open>os.remove\<close> succeeds.

  \<^verbatim>\<open>lib50.files\<close> returns two Python sets, the included and the excluded files. A set
  is iterated in an order of its own, each element once: it is a list without
  duplicates, a \<open>dlist\<close>.
\<close>

record ('p, 'f, 'c, 'pp, 'k, 'sc, 'rs) env =
  Pass_registry :: "('c, 'pp) pass list"
  version :: string
  builtin_int :: "string \<Rightarrow> int option"
  input_line :: "string option"
  time_time :: nat
  line_profiler :: bool
  textwrap_wrap :: "string \<Rightarrow> nat \<Rightarrow> string list"
  pathlib_Path :: "string \<Rightarrow> 'p"
  path_str :: "'p \<Rightarrow> string"
  path_name :: "'p \<Rightarrow> 'f"
  path_parent :: "'p \<Rightarrow> 'p"
  path_absolute :: "'p \<Rightarrow> 'p"
  path_is_file :: "'p \<Rightarrow> bool"
  path_exists :: "'p \<Rightarrow> bool"
  os_remove :: "'p \<Rightarrow> pyexc option"
  lib50_files :: "file_pattern list \<Rightarrow> 'p \<Rightarrow> pyexc + ('f dlist \<times> 'f dlist)"
  open_read :: "'p \<Rightarrow> 'f \<Rightarrow> pyexc option"
  submission_key :: "('p, 'f, 'pp) submission \<Rightarrow> 'k"
  api_rank :: "('p, 'f, 'pp) submission list \<Rightarrow> nat list \<Rightarrow> nat list \<Rightarrow> 'f set
     \<Rightarrow> ('c, 'pp) pass \<Rightarrow> int \<Rightarrow> pyexc + 'sc"
  api_compare :: "('p, 'f, 'pp) submission list \<Rightarrow> 'sc \<Rightarrow> 'f set
     \<Rightarrow> ('c, 'pp) pass \<Rightarrow> pyexc + 'rs"
  renderer_render :: "(('c, 'pp) pass \<times> 'rs) list \<Rightarrow> 'p \<Rightarrow> pyexc + 'p"

section \<open>\<^verbatim>\<open>SubmissionFactory\<close>\<close>

definition SubmissionFactory_include ::
  "string \<Rightarrow> ('p, 'f, 'c, 'pp, 'sc, 'rs) world \<Rightarrow> ('p, 'f, 'c, 'pp, 'sc, 'rs) world" where
  "SubmissionFactory_include pattern w =
     w\<lparr>patterns := patterns w @ [FilePattern Included pattern]\<rparr>"

definition SubmissionFactory_exclude ::
  "string \<Rightarrow> ('p, 'f, 'c, 'pp, 'sc, 'rs) world \<Rightarrow> ('p, 'f, 'c, 'pp, 'sc, 'rs) world" where
  "SubmissionFactory_exclude pattern w =
     w\<lparr>patterns := patterns w @ [FilePattern Excluded pattern]\<rparr>"

text \<open>
  The first statements of \<^verbatim>\<open>_get\<close>: the files to read and the root they are relative
  to. A regular file is its own single entry under its parent directory; anything else
  is handed to \<^verbatim>\<open>lib50.files\<close> with the factory's patterns, and the set of included
  files it returns is iterated.
\<close>

definition included_files ::
  "('p, 'f, 'c, 'pp, 'k, 'sc, 'rs) env \<Rightarrow> file_pattern list \<Rightarrow> 'p
     \<Rightarrow> pyexc + ('f list \<times> 'p)" where
  "included_files env pats p =
     (if path_is_file env p then Inr ([path_name env p], path_parent env p)
      else (case lib50_files env pats p of
              Inl e \<Rightarrow> Inl e
            | Inr (included, excluded) \<Rightarrow> Inr (list_of_dlist included, p)))"

text \<open>
  The loop of \<^verbatim>\<open>_get\<close> over the included files: a file whose read raises
  \<^verbatim>\<open>UnicodeDecodeError\<close> is skipped, a file that reads is appended, any other exception
  leaves the loop.
\<close>

fun decodable_files ::
  "('p, 'f, 'c, 'pp, 'k, 'sc, 'rs) env \<Rightarrow> 'p \<Rightarrow> 'f list \<Rightarrow> 'f list \<Rightarrow> pyexc + 'f list" where
  "decodable_files env root [] acc = Inr acc"
| "decodable_files env root (file_path # rest) acc =
     (case open_read env root file_path of
        None \<Rightarrow> decodable_files env root rest (acc @ [file_path])
      | Some e \<Rightarrow>
          if issubclass (exc_class e) UnicodeDecodeError
          then decodable_files env root rest acc
          else Inl e)"

text \<open>
  \<^verbatim>\<open>SubmissionFactory._get\<close>. The new submission object is allocated at the end of the
  heap and its reference returned.
\<close>

definition SubmissionFactory_get ::
  "('p, 'f :: linorder, 'c, 'pp, 'k, 'sc, 'rs) env \<Rightarrow> string \<Rightarrow> 'pp preprocessor
     \<Rightarrow> ('p, 'f, 'c, 'pp, 'sc, 'rs) world
     \<Rightarrow> nat outcome \<times> ('p, 'f, 'c, 'pp, 'sc, 'rs) world" where
  "SubmissionFactory_get env path0 pre w =
     (case included_files env (patterns w) (pathlib_Path env path0) of
        Inl e \<Rightarrow> (Raise e, w)
      | Inr (included, root) \<Rightarrow>
          (case decodable_files env root included [] of
             Inl e \<Rightarrow> (Raise e, w)
           | Inr decodable \<Rightarrow>
               if decodable = [] then
                 (Raise (raise_exc ApiError [''Empty submission: '' @ path_str env root]), w)
               else
                 (Return (length (heap w)),
                  w\<lparr>heap := heap w @
                     [\<lparr>path = root, files = sort decodable, preprocessor = pre\<rparr>]\<rparr>)))"

text \<open>
  A Python \<^verbatim>\<open>set\<close> of submission objects is the list of their references, in the
  order they were added; the order is never observed by \<^verbatim>\<open>__main__.py\<close>.
  \<^verbatim>\<open>set.add\<close> keeps the set as it is when it already holds an equal submission.
\<close>

definition key_of ::
  "('p, 'f, 'c, 'pp, 'k, 'sc, 'rs) env \<Rightarrow> ('p, 'f, 'pp) submission list \<Rightarrow> nat \<Rightarrow> 'k option" where
  "key_of env h r = (if r < length h then Some (submission_key env (h ! r)) else None)"

definition set_add ::
  "('p, 'f, 'c, 'pp, 'k, 'sc, 'rs) env \<Rightarrow> ('p, 'f, 'pp) submission list \<Rightarrow> nat \<Rightarrow> nat list
     \<Rightarrow> nat list" where
  "set_add env h r subs =
     (if key_of env h r \<in> set (map (key_of env h) subs) then subs else subs @ [r])"

text \<open>\<^verbatim>\<open>SubmissionFactory.get_all\<close>: only \<^verbatim>\<open>_api.Error\<close> is caught.\<close>

fun get_all_loop ::
  "('p, 'f :: linorder, 'c, 'pp, 'k, 'sc, 'rs) env \<Rightarrow> string list \<Rightarrow> 'pp preprocessor
     \<Rightarrow> nat list \<Rightarrow> ('p, 'f, 'c, 'pp, 'sc, 'rs) world
     \<Rightarrow> nat list outcome \<times> ('p, 'f, 'c, 'pp, 'sc, 'rs) world" where
  "get_all_loop env [] pre subs w = (Return subs, w)"
| "get_all_loop env (sub_path # paths) pre subs w =
     (case SubmissionFactory_get env sub_path pre w of
        (Return r, w') \<Rightarrow> get_all_loop env paths pre (set_add env (heap w') r subs) w'
      | (Raise e, w') \<Rightarrow>
          if issubclass (exc_class e) ApiError
          then get_all_loop env paths pre subs w'
          else (Raise e, w')
      | (SysExit c, w') \<Rightarrow> (SysExit c, w'))"

definition get_all ::
  "('p, 'f :: linorder, 'c, 'pp, 'k, 'sc, 'rs) env \<Rightarrow> string list \<Rightarrow> 'pp preprocessor
     \<Rightarrow> ('p, 'f, 'c, 'pp, 'sc, 'rs) world
     \<Rightarrow> nat list outcome \<times> ('p, 'f, 'c, 'pp, 'sc, 'rs) world" where
  "get_all env paths pre w = get_all_loop env paths pre [] w"

section \<open>The command line\<close>

text \<open>
  The command line as \<^verbatim>\<open>argparse\<close> meets it, left to right: a run of positional
  strings, or one option with the strings that follow it. What \<^verbatim>\<open>argparse\<close> does
  with each is fixed by the \<^verbatim>\<open>add_argument\<close> calls of \<^verbatim>\<open>main\<close>; \<open>Opt_help\<close> is
  \<^verbatim>\<open>-h\<close> or \<^verbatim>\<open>--help\<close>, which \<^verbatim>\<open>ArgParser(prog="compare50")\<close> adds by itself.
\<close>

datatype argument =
    Positional "string list"
  | Opt_archive "string list"
  | Opt_distro "string list"
  | Opt_passes "string list"
  | Opt_include "string list"
  | Opt_exclude "string list"
  | Opt_list
  | Opt_output string
  | Opt_verbose
  | Opt_n string
  | Opt_profile
  | Opt_debug
  | Opt_version
  | Unrecognized string
  | Opt_help

text \<open>The namespace \<^verbatim>\<open>parse_args\<close> returns.\<close>

record 'p args =
  args_submissions :: "string list"
  args_archive :: "string list"
  args_distro :: "string list"
  args_passes :: "string list"
  args_output :: 'p
  args_verbose :: bool
  args_n :: int
  args_profile :: bool
  args_debug :: bool

text \<open>The defaults of the \<^verbatim>\<open>add_argument\<close> calls.\<close>

definition default_args :: "('p, 'f, 'c, 'pp, 'k, 'sc, 'rs) env \<Rightarrow> 'p args" where
  "default_args env =
     \<lparr>args_submissions = [],
      args_archive = [],
      args_distro = [],
      args_passes = map pass_name (Pass_registry env),
      args_output = pathlib_Path env ''results'',
      args_verbose = False,
      args_n = 50,
      args_profile = False,
      args_debug = False\<rparr>"

text \<open>\<^verbatim>\<open>ListAction.__call__\<close>: every pass with its wrapped description, then exit 0.\<close>

definition print_pass ::
  "('p, 'f, 'c, 'pp, 'k, 'sc, 'rs) env \<Rightarrow> ('p, 'f, 'c, 'pp, 'sc, 'rs) world \<Rightarrow> ('c, 'pp) pass
     \<Rightarrow> ('p, 'f, 'c, 'pp, 'sc, 'rs) world" where
  "print_pass env w pass =
     foldl (\<lambda>w' line. emit (Print (''    '' @ line)) w')
       (emit (Print (pass_name pass)) w)
       (textwrap_wrap env
          (case pass_doc pass of
             None \<Rightarrow> ''No description provided''
           | Some d \<Rightarrow> if d = [] then ''No description provided'' else d)
          (80 - length ''    ''))"

definition ListAction_call ::
  "('p, 'f, 'c, 'pp, 'k, 'sc, 'rs) env \<Rightarrow> ('p, 'f, 'c, 'pp, 'sc, 'rs) world
     \<Rightarrow> 'a outcome \<times> ('p, 'f, 'c, 'pp, 'sc, 'rs) world" where
  "ListAction_call env w = (SysExit 0, foldl (print_pass env) w (Pass_registry env))"

text \<open>\<^verbatim>\<open>IncludeExcludeAction.__call__\<close>: the callback on every value, in order.\<close>

definition IncludeExcludeAction_call ::
  "(string \<Rightarrow> ('p, 'f, 'c, 'pp, 'sc, 'rs) world \<Rightarrow> ('p, 'f, 'c, 'pp, 'sc, 'rs) world)
     \<Rightarrow> string list \<Rightarrow> ('p, 'f, 'c, 'pp, 'sc, 'rs) world
     \<Rightarrow> ('p, 'f, 'c, 'pp, 'sc, 'rs) world" where
  "IncludeExcludeAction_call callback values w = foldl (\<lambda>w' v. callback v w') w values"

text \<open>
  The parser's pass over the command line. Its state is the namespace, whether the
  positional \<^verbatim>\<open>submissions\<close> has been filled, and the strings left over. An option
  declared with \<^verbatim>\<open>nargs="+"\<close> that is followed by no value, and a value of \<^verbatim>\<open>-n\<close>
  that \<^verbatim>\<open>int\<close> refuses, end in \<^verbatim>\<open>ArgParser.error\<close> (the messages are those of
  \<^verbatim>\<open>argparse\<close>). \<^verbatim>\<open>--list\<close>, \<^verbatim>\<open>--version\<close> and \<^verbatim>\<open>--help\<close> print and leave through
  \<^verbatim>\<open>parser.exit()\<close>, with status 0, where they stand on the command line.
\<close>

fun parse_known_args ::
  "('p, 'f, 'c, 'pp, 'k, 'sc, 'rs) env \<Rightarrow> argument list \<Rightarrow> 'p args \<times> bool \<times> string list
     \<Rightarrow> ('p, 'f, 'c, 'pp, 'sc, 'rs) world
     \<Rightarrow> ('p args \<times> bool \<times> string list) outcome \<times> ('p, 'f, 'c, 'pp, 'sc, 'rs) world" where
  "parse_known_args env [] st w = (Return st, w)"
| "parse_known_args env (Positional xs # rest) (ns, seen, extras) w =
     (if xs = [] then parse_known_args env rest (ns, seen, extras) w
      else if seen then parse_known_args env rest (ns, seen, extras @ xs) w
      else parse_known_args env rest (ns\<lparr>args_submissions := xs\<rparr>, True, extras) w)"
| "parse_known_args env (Opt_archive xs # rest) (ns, seen, extras) w =
     (if xs = [] then
        ArgParser_error ''argument -a/--archive: expected at least one argument'' w
      else parse_known_args env rest (ns\<lparr>args_archive := xs\<rparr>, seen, extras) w)"
| "parse_known_args env (Opt_distro xs # rest) (ns, seen, extras) w =
     (if xs = [] then
        ArgParser_error ''argument -d/--distro: expected at least one argument'' w
      else parse_known_args env rest (ns\<lparr>args_distro := xs\<rparr>, seen, extras) w)"
| "parse_known_args env (Opt_passes xs # rest) (ns, seen, extras) w =
     (if xs = [] then
        ArgParser_error ''argument -p/--passes: expected at least one argument'' w
      else parse_known_args env rest (ns\<lparr>args_passes := xs\<rparr>, seen, extras) w)"
| "parse_known_args env (Opt_include xs # rest) (ns, seen, extras) w =
     (if xs = [] then
        ArgParser_error ''argument -i/--include: expected at least one argument'' w
      else parse_known_args env rest (ns, seen, extras)
             (IncludeExcludeAction_call SubmissionFactory_include xs w))"
| "parse_known_args env (Opt_exclude xs # rest) (ns, seen, extras) w =
     (if xs = [] then
        ArgParser_error ''argument -x/--exclude: expected at least one argument'' w
      else parse_known_args env rest (ns, seen, extras)
             (IncludeExcludeAction_call SubmissionFactory_exclude xs w))"
| "parse_known_args env (Opt_list # rest) (ns, seen, extras) w = ListAction_call env w"
| "parse_known_args env (Opt_output x # rest) (ns, seen, extras) w =
     parse_known_args env rest (ns\<lparr>args_output := pathlib_Path env x\<rparr>, seen, extras) w"
| "parse_known_args env (Opt_verbose # rest) (ns, seen, extras) w =
     parse_known_args env rest (ns\<lparr>args_verbose := True\<rparr>, seen, extras) w"
| "parse_known_args env (Opt_n x # rest) (ns, seen, extras) w =
     (case builtin_int env x of
        None \<Rightarrow> ArgParser_error (''argument -n: invalid int value: '' @ repr_str x) w
      | Some v \<Rightarrow> parse_known_args env rest (ns\<lparr>args_n := v\<rparr>, seen, extras) w)"
| "parse_known_args env (Opt_profile # rest) (ns, seen, extras) w =
     parse_known_args env rest (ns\<lparr>args_profile := True\<rparr>, seen, extras) w"
| "parse_known_args env (Opt_debug # rest) (ns, seen, extras) w =
     parse_known_args env rest (ns\<lparr>args_debug := True\<rparr>, seen, extras) w"
| "parse_known_args env (Opt_version # rest) (ns, seen, extras) w =
     (SysExit 0, emit (Print (''compare50 '' @ version env)) w)"
| "parse_known_args env (Unrecognized x # rest) (ns, seen, extras) w =
     parse_known_args env rest (ns, seen, extras @ [x]) w"
| "parse_known_args env (Opt_help # rest) (ns, seen, extras) w =
     (SysExit 0, emit PrintHelp w)"

definition parse_args ::
  "('p, 'f, 'c, 'pp, 'k, 'sc, 'rs) env \<Rightarrow> argument list \<Rightarrow> ('p, 'f, 'c, 'pp, 'sc, 'rs) world
     \<Rightarrow> 'p args outcome \<times> ('p, 'f, 'c, 'pp, 'sc, 'rs) world" where
  "parse_args env argv w =
     (case parse_known_args env argv (default_args env, False, []) w of
        (Return (ns, seen, extras), w') \<Rightarrow>
          if \<not> seen then
            ArgParser_error ''the following arguments are required: submissions'' w'
          else if extras \<noteq> [] then
            ArgParser_error (''unrecognized arguments: '' @ join '' '' extras) w'
          else (Return ns, w')
      | (Raise e, w') \<Rightarrow> (Raise e, w')
      | (SysExit c, w') \<Rightarrow> (SysExit c, w'))"

section \<open>\<^verbatim>\<open>main\<close>\<close>

text \<open>Sequencing: the next statement runs only when the previous one returned.\<close>

definition then_do :: "'a outcome \<times> 'w \<Rightarrow> ('a \<Rightarrow> 'w \<Rightarrow> 'b outcome \<times> 'w) \<Rightarrow> 'b outcome \<times> 'w" where
  "then_do m f =
     (case m of
        (Return x, w) \<Rightarrow> f x w
      | (Raise e, w) \<Rightarrow> (Raise e, w)
      | (SysExit c, w) \<Rightarrow> (SysExit c, w))"

subsection \<open>Resolving the passes\<close>

text \<open>
  Modelled from the spec: the pass registry of \<^verbatim>\<open>_data.Pass\<close>, "name \<open>\<rightarrow>\<close> (comparator
  variant, preprocessor list)". \<^verbatim>\<open>Pass._get_all()\<close> is the list \<open>Pass_registry\<close>;
  \<^verbatim>\<open>Pass._get(name)\<close> is the registered pass of that name and raises
  \<^verbatim>\<open>KeyError(name)\<close> when there is none.
\<close>

definition Pass_get ::
  "('p, 'f, 'c, 'pp, 'k, 'sc, 'rs) env \<Rightarrow> string \<Rightarrow> pyexc + ('c, 'pp) pass" where
  "Pass_get env name =
     (case find (\<lambda>pass. pass_name pass = name) (Pass_registry env) of
        None \<Rightarrow> Inl (raise_exc KeyError [name])
      | Some pass \<Rightarrow> Inr pass)"

text \<open>The list comprehension over \<^verbatim>\<open>args.passes\<close>: the first failing lookup raises.\<close>

fun get_passes ::
  "('p, 'f, 'c, 'pp, 'k, 'sc, 'rs) env \<Rightarrow> string list \<Rightarrow> pyexc + ('c, 'pp) pass list" where
  "get_passes env [] = Inr []"
| "get_passes env (name # names) =
     (case Pass_get env name of
        Inl e \<Rightarrow> Inl e
      | Inr pass \<Rightarrow>
          (case get_passes env names of
             Inl e \<Rightarrow> Inl e
           | Inr passes \<Rightarrow> Inr (pass # passes)))"

definition not_a_pass :: "('p, 'f, 'c, 'pp, 'k, 'sc, 'rs) env \<Rightarrow> string \<Rightarrow> string" where
  "not_a_pass env name =
     name @ '' is not a pass, try one of these: '' @
     repr_list (map pass_name (Pass_registry env))"

text \<open>The \<^verbatim>\<open>try\<close> statement of \<^verbatim>\<open>main\<close> around the lookups.\<close>

definition resolve_passes ::
  "('p, 'f, 'c, 'pp, 'k, 'sc, 'rs) env \<Rightarrow> string list \<Rightarrow> pyexc + ('c, 'pp) pass list" where
  "resolve_passes env names =
     (case get_passes env names of
        Inr passes \<Rightarrow> Inr passes
      | Inl e \<Rightarrow>
          if issubclass (exc_class e) KeyError then
            (case exc_args e of
               [] \<Rightarrow> Inl (raise_exc IndexError [''tuple index out of range''])
             | a # _ \<Rightarrow> Inl (raise_exc ApiError [not_a_pass env a]))
          else Inl e)"

subsection \<open>The output path\<close>

text \<open>
  \<^verbatim>\<open>resp.lower().startswith("y")\<close>: the first character is \<^verbatim>\<open>y\<close> or \<^verbatim>\<open>Y\<close>.
\<close>

definition lower_startswith_y :: "string \<Rightarrow> bool" where
  "lower_startswith_y resp =
     (case resp of [] \<Rightarrow> False | c # _ \<Rightarrow> c = CHR ''y'' \<or> c = CHR ''Y'')"

definition confirm_output ::
  "('p, 'f, 'c, 'pp, 'k, 'sc, 'rs) env \<Rightarrow> 'p \<Rightarrow> ('p, 'f, 'c, 'pp, 'sc, 'rs) world
     \<Rightarrow> unit outcome \<times> ('p, 'f, 'c, 'pp, 'sc, 'rs) world" where
  "confirm_output env output w =
     (if path_exists env output then
        (let w1 = emit (Input output) w;
             (resp, w2) = (case input_line env of
                             None \<Rightarrow> (''n'', emit (Print []) w1)
                           | Some r \<Rightarrow> (r, w1))
         in if resp = [] \<or> lower_startswith_y resp then
              (case os_remove env output of
                 None \<Rightarrow> (Return (), emit (OsRemove output) w2)
               | Some e \<Rightarrow>
                   if issubclass (exc_class e) IsADirectoryError
                   then (Return (), emit (Rmtree output) w2)
                   else (Raise e, w2))
            else (SysExit 1, emit (Print ''Quitting...'') w2))
      else (Return (), w))"

subsection \<open>The context managers\<close>

definition profile_enter ::
  "('p, 'f, 'c, 'pp, 'k, 'sc, 'rs) env \<Rightarrow> ('p, 'f, 'c, 'pp, 'sc, 'rs) world
     \<Rightarrow> unit outcome \<times> ('p, 'f, 'c, 'pp, 'sc, 'rs) world" where
  "profile_enter env w =
     (if line_profiler env then (Return (), emit ProfilerEnable w)
      else (Raise (raise_exc (Subclass ''ModuleNotFoundError'' ImportError)
                     [''No module named '' @ repr_str ''line_profiler'']), w))"

definition profile_exit ::
  "('p, 'f, 'c, 'pp, 'k, 'sc, 'rs) env \<Rightarrow> ('p, 'f, 'c, 'pp, 'sc, 'rs) world
     \<Rightarrow> ('p, 'f, 'c, 'pp, 'sc, 'rs) world" where
  "profile_exit env w =
     (let outfile = ''compare50_profile_'' @ str_nat (time_time env) @ ''.txt''
      in emit (Cprint (''Profiling data written to '' @ outfile) Yellow Stdout)
           (emit (ProfilerStats outfile) w))"

text \<open>
  \<^verbatim>\<open>with profiler(), _api._ProgressBar("Preparing") as _api.progress_bar\<close>: both
  managers are left, the progress bar first, however the body ends.
\<close>

definition with_block ::
  "('p, 'f, 'c, 'pp, 'k, 'sc, 'rs) env \<Rightarrow> bool
     \<Rightarrow> (('p, 'f, 'c, 'pp, 'sc, 'rs) world \<Rightarrow> 'a outcome \<times> ('p, 'f, 'c, 'pp, 'sc, 'rs) world)
     \<Rightarrow> ('p, 'f, 'c, 'pp, 'sc, 'rs) world
     \<Rightarrow> 'a outcome \<times> ('p, 'f, 'c, 'pp, 'sc, 'rs) world" where
  "with_block env prof body w =
     then_do (if prof then profile_enter env w else (Return (), w))
       (\<lambda>_ w1.
          let (r, w2) = body (emit (ProgressBar ''Preparing'') w1);
              w3 = emit ProgressBarExit w2
          in (r, if prof then profile_exit env w3 else w3))"

subsection \<open>Collecting, ranking, comparing, rendering\<close>

definition ignored_files_of :: "('p, 'f, 'pp) submission list \<Rightarrow> nat list \<Rightarrow> 'f set" where
  "ignored_files_of h ignored_subs =
     set (concat (map (\<lambda>sub. if sub < length h then files (h ! sub) else []) ignored_subs))"

text \<open>\<^verbatim>\<open>object.__setattr__(sub, "preprocessor", preprocessor)\<close> on the object at \<open>sub\<close>.\<close>

definition setattr_preprocessor ::
  "('p, 'f, 'pp) submission list \<Rightarrow> nat \<Rightarrow> 'pp preprocessor \<Rightarrow> ('p, 'f, 'pp) submission list" where
  "setattr_preprocessor h sub pre = h[sub := (h ! sub)\<lparr>preprocessor := pre\<rparr>]"

text \<open>
  The loop over the passes. \<open>chain\<close> is
  \<^verbatim>\<open>itertools.chain(subs, archive_subs, ignored_subs)\<close>; the dictionary
  \<^verbatim>\<open>pass_to_results\<close> is an association list in insertion order.
\<close>

fun compare_passes ::
  "('p, 'f, 'c, 'pp, 'k, 'sc, 'rs) env \<Rightarrow> 'sc \<Rightarrow> 'f set \<Rightarrow> nat list \<Rightarrow> ('c, 'pp) pass list
     \<Rightarrow> (('c, 'pp) pass \<times> 'rs) list \<Rightarrow> ('p, 'f, 'c, 'pp, 'sc, 'rs) world
     \<Rightarrow> (('c, 'pp) pass \<times> 'rs) list outcome \<times> ('p, 'f, 'c, 'pp, 'sc, 'rs) world" where
  "compare_passes env scores ignored_files chain [] pass_to_results w =
     (Return pass_to_results, w)"
| "compare_passes env scores ignored_files chain (pass # rest) pass_to_results w =
     (let w1 = emit (ProgressNew (''Comparing ('' @ pass_name pass @ '')'')) w;
          preproc = Preprocessor (pass_preprocessors pass);
          w2 = w1\<lparr>heap := foldl (\<lambda>h sub. setattr_preprocessor h sub preproc)
                              (heap w1) chain\<rparr>;
          w3 = emit (Compare scores ignored_files pass) w2
      in case api_compare env (heap w3) scores ignored_files pass of
           Inl e \<Rightarrow> (Raise e, w3)
         | Inr r \<Rightarrow>
             compare_passes env scores ignored_files chain rest
               (AList.update pass r pass_to_results) w3)"

definition too_few :: string where
  "too_few = ''At least two non-empty submissions are required for a comparison.''"

text \<open>The three collections at the top of the \<^verbatim>\<open>with\<close> block.\<close>

definition collect ::
  "('p, 'f :: linorder, 'c, 'pp, 'k, 'sc, 'rs) env \<Rightarrow> 'p args \<Rightarrow> 'pp preprocessor
     \<Rightarrow> ('p, 'f, 'c, 'pp, 'sc, 'rs) world
     \<Rightarrow> (nat list \<times> nat list \<times> nat list) outcome \<times> ('p, 'f, 'c, 'pp, 'sc, 'rs) world" where
  "collect env args preproc w =
     then_do (get_all env (args_submissions args) preproc w)
       (\<lambda>subs w1.
     then_do (get_all env (args_archive args) preproc (emit (ProgressUpdate 33) w1))
       (\<lambda>archive_subs w2.
     then_do (get_all env (args_distro args) preproc (emit (ProgressUpdate 33) w2))
       (\<lambda>ignored_subs w3. (Return (subs, archive_subs, ignored_subs), w3))))"

text \<open>The rest of the body, from the check on the number of submissions on.\<close>

definition score_and_compare ::
  "('p, 'f, 'c, 'pp, 'k, 'sc, 'rs) env \<Rightarrow> 'p args \<Rightarrow> ('c, 'pp) pass list \<Rightarrow> ('c, 'pp) pass
     \<Rightarrow> nat list \<Rightarrow> nat list \<Rightarrow> nat list \<Rightarrow> ('p, 'f, 'c, 'pp, 'sc, 'rs) world
     \<Rightarrow> 'p outcome \<times> ('p, 'f, 'c, 'pp, 'sc, 'rs) world" where
  "score_and_compare env args passes pass0 subs archive_subs ignored_subs w =
     (let ignored_files = ignored_files_of (heap w) ignored_subs
      in if length subs + length archive_subs < 2 then
           (Raise (raise_exc ApiError [too_few]), w)
         else
           (let w1 = emit (ProgressNew (''Scoring ('' @ pass_name pass0 @ '')'')) w;
                w2 = emit (Rank subs archive_subs ignored_files pass0 (args_n args)) w1
            in case api_rank env (heap w2) subs archive_subs ignored_files pass0
                      (args_n args) of
                 Inl e \<Rightarrow> (Raise e, w2)
               | Inr scores \<Rightarrow>
                   then_do
                     (compare_passes env scores ignored_files
                        (subs @ archive_subs @ ignored_subs) passes [] w2)
                     (\<lambda>pass_to_results w3.
                        let w4 = emit (ProgressNew ''Rendering'') w3;
                            w5 = emit (Render pass_to_results (args_output args)) w4
                        in case renderer_render env pass_to_results (args_output args) of
                             Inl e \<Rightarrow> (Raise e, w5)
                           | Inr index \<Rightarrow> (Return index, w5))))"

definition main_body ::
  "('p, 'f :: linorder, 'c, 'pp, 'k, 'sc, 'rs) env \<Rightarrow> 'p args \<Rightarrow> ('c, 'pp) pass list
     \<Rightarrow> ('c, 'pp) pass \<Rightarrow> 'pp preprocessor \<Rightarrow> ('p, 'f, 'c, 'pp, 'sc, 'rs) world
     \<Rightarrow> 'p outcome \<times> ('p, 'f, 'c, 'pp, 'sc, 'rs) world" where
  "main_body env args passes pass0 preproc w =
     then_do (collect env args preproc w)
       (\<lambda>(subs, archive_subs, ignored_subs) w1.
          score_and_compare env args passes pass0 subs archive_subs ignored_subs w1)"

subsection \<open>The whole of \<^verbatim>\<open>main\<close>, and the process\<close>

text \<open>\<^verbatim>\<open>main\<close> after \<^verbatim>\<open>parse_args\<close> has returned \<open>args\<close>.\<close>

definition main_args ::
  "('p, 'f :: linorder, 'c, 'pp, 'k, 'sc, 'rs) env \<Rightarrow> 'p args
     \<Rightarrow> ('p, 'f, 'c, 'pp, 'sc, 'rs) world
     \<Rightarrow> unit outcome \<times> ('p, 'f, 'c, 'pp, 'sc, 'rs) world" where
  "main_args env args w0 =
     (let w = w0\<lparr>verbose := args_verbose args\<rparr>
      in case resolve_passes env (args_passes args) of
           Inl e \<Rightarrow> (Raise e, w)
         | Inr passes \<Rightarrow>
             (case passes of
                [] \<Rightarrow> (Raise (raise_exc IndexError [''list index out of range'']), w)
              | pass0 # _ \<Rightarrow>
                  (let preproc = Preprocessor (pass_preprocessors pass0);
                       debug = (args_profile args \<or> args_debug args);
                       w1 = (if debug then w\<lparr>api_Executor := FauxExecutor\<rparr> else w)
                   in then_do (confirm_output env (args_output args) w1)
                        (\<lambda>_ w2.
                      then_do (with_block env (args_profile args)
                                 (main_body env args passes pass0 preproc) w2)
                        (\<lambda>index w3.
                           (Return (),
                            emit (Cprint (''Done! Visit file://'' @
                                          path_str env (path_absolute env index) @
                                          '' in a web browser to see the results.'')
                                    Green Stdout) w3))))))"

definition main ::
  "('p, 'f :: linorder, 'c, 'pp, 'k, 'sc, 'rs) env \<Rightarrow> argument list
     \<Rightarrow> ('p, 'f, 'c, 'pp, 'sc, 'rs) world
     \<Rightarrow> unit outcome \<times> ('p, 'f, 'c, 'pp, 'sc, 'rs) world" where
  "main env argv w = then_do (parse_args env argv w) (main_args env)"

text \<open>
  The state when the module has been loaded: no patterns, no submissions, tracebacks
  on ("until we get command line arguments"), the parallel executor.
\<close>

definition initial_world :: "('p, 'f, 'c, 'pp, 'sc, 'rs) world" where
  "initial_world =
     \<lparr>patterns = [], heap = [], verbose = True, api_Executor = Executor, trace = []\<rparr>"

text \<open>
  The process: \<^verbatim>\<open>main()\<close> under \<^verbatim>\<open>sys.excepthook = excepthook\<close>. It ends with the
  status of \<^verbatim>\<open>sys.exit\<close>, with 0 when \<^verbatim>\<open>main\<close> returns, and with 1 when an
  exception is left unhandled and the hook returns.
\<close>

definition run ::
  "('p, 'f :: linorder, 'c, 'pp, 'k, 'sc, 'rs) env \<Rightarrow> argument list
     \<Rightarrow> int \<times> ('p, 'f, 'c, 'pp, 'sc, 'rs) world" where
  "run env argv =
     (case main env argv initial_world of
        (Return _, w) \<Rightarrow> (0, w)
      | (SysExit c, w) \<Rightarrow> (c, w)
      | (Raise e, w) \<Rightarrow>
          (case excepthook e w of
             (SysExit c, w') \<Rightarrow> (c, w')
           | (_, w') \<Rightarrow> (1, w')))"

section \<open>A concrete environment\<close>

text \<open>
  A small world for concrete runs. Two passes are registered, \<open>structure\<close> with two
  preprocessors and \<open>exact\<close> with none. The directory \<open>alice\<close> holds two source files
  and an image that does not decode, \<open>bob\<close> holds one source file, \<open>carol/solo.c\<close> is
  a regular file, \<open>nobody\<close> is an empty directory, and no other path exists. Two
  submissions are equal when their paths and file lists are.
\<close>

definition demo_registry :: "(unit, string list \<Rightarrow> string list) pass list" where
  "demo_registry =
     [\<lparr>pass_name = ''structure'', pass_doc = Some ''Compares code structure.'',
       pass_comparator = (),
       pass_preprocessors = [filter (\<lambda>t. t \<noteq> '' ''), map (\<lambda>t. ''v'')]\<rparr>,
      \<lparr>pass_name = ''exact'', pass_doc = None,
       pass_comparator = (), pass_preprocessors = []\<rparr>]"

definition demo_env ::
  "(string, string, unit, string list \<Rightarrow> string list, string \<times> string list, nat, string) env" where
  "demo_env =
     \<lparr>Pass_registry = demo_registry,
      version = ''1.0.0'',
      builtin_int = (\<lambda>s. if s = ''7'' then Some 7 else None),
      input_line = Some ''y'',
      time_time = 0,
      line_profiler = False,
      textwrap_wrap = (\<lambda>s n. [s]),
      pathlib_Path = (\<lambda>s. s),
      path_str = (\<lambda>p. p),
      path_name = (\<lambda>p. if p = ''carol/solo.c'' then ''solo.c'' else p),
      path_parent = (\<lambda>p. if p = ''carol/solo.c'' then ''carol'' else ''.''),
      path_absolute = (\<lambda>p. ''/home/'' @ p),
      path_is_file = (\<lambda>p. p = ''carol/solo.c''),
      path_exists = (\<lambda>p. False),
      os_remove = (\<lambda>p. None),
      lib50_files = (\<lambda>pats p.
         if p = ''alice'' then Inr (Dlist [''b.c'', ''logo.png'', ''a.c''], Dlist [])
         else if p = ''bob'' then Inr (Dlist [''main.c''], Dlist [])
         else if p = ''nobody'' then Inr (Dlist [], Dlist [])
         else Inl \<lparr>exc_class = FileNotFoundError,
                    exc_args = [''2'', ''No such file or directory''],
                    exc_filename = Some p\<rparr>),
      open_read = (\<lambda>root f.
         if f = ''logo.png''
         then Some (raise_exc UnicodeDecodeError [''invalid start byte''])
         else None),
      submission_key = (\<lambda>s. (path s, files s)),
      api_rank = (\<lambda>h subs archive ignored pass n. Inr (length subs + length archive)),
      api_compare = (\<lambda>h scores ignored pass. Inr (pass_name pass)),
      renderer_render = (\<lambda>results dest. Inr (dest @ ''/index.html''))\<rparr>"

definition demo_world ::
  "(string, string, unit, string list \<Rightarrow> string list, nat, string) world" where
  "demo_world = initial_world"

definition demo_args :: "string list \<Rightarrow> string args" where
  "demo_args submissions = (default_args demo_env)\<lparr>args_submissions := submissions\<rparr>"

text \<open>The state after \<open>alice\<close> and \<open>bob\<close> have been collected under the first pass.\<close>

definition demo_collected ::
  "(string, string, unit, string list \<Rightarrow> string list, nat, string) world" where
  "demo_collected =
     snd (collect demo_env (demo_args [''alice'', ''bob''])
            (Preprocessor (pass_preprocessors (hd demo_registry))) demo_world)"

section \<open>Notions used to state the properties\<close>

text \<open>
  What \<^verbatim>\<open>_get\<close> computes for a path, apart from the allocation: the submission it
  constructs, or the exception it raises.
\<close>

definition construct ::
  "('p, 'f :: linorder, 'c, 'pp, 'k, 'sc, 'rs) env \<Rightarrow> file_pattern list \<Rightarrow> string
     \<Rightarrow> 'pp preprocessor \<Rightarrow> pyexc + ('p, 'f, 'pp) submission" where
  "construct env pats path0 pre =
     (case included_files env pats (pathlib_Path env path0) of
        Inl e \<Rightarrow> Inl e
      | Inr (included, root) \<Rightarrow>
          (case decodable_files env root included [] of
             Inl e \<Rightarrow> Inl e
           | Inr decodable \<Rightarrow>
               if decodable = [] then
                 Inl (raise_exc ApiError [''Empty submission: '' @ path_str env root])
               else Inr \<lparr>path = root, files = sort decodable, preprocessor = pre\<rparr>))"

text \<open>The submissions constructed for a list of paths, in order, failures left out.\<close>

fun constructed ::
  "('p, 'f :: linorder, 'c, 'pp, 'k, 'sc, 'rs) env \<Rightarrow> file_pattern list \<Rightarrow> string list
     \<Rightarrow> 'pp preprocessor \<Rightarrow> ('p, 'f, 'pp) submission list" where
  "constructed env pats [] pre = []"
| "constructed env pats (p # ps) pre =
     (case construct env pats p pre of
        Inl e \<Rightarrow> constructed env pats ps pre
      | Inr s \<Rightarrow> s # constructed env pats ps pre)"

text \<open>
  The heap after the inner loop of \<^verbatim>\<open>main\<close> has set the preprocessor of every
  submission of \<open>chain\<close>.
\<close>

definition heap_for ::
  "('p, 'f, 'pp) submission list \<Rightarrow> nat list \<Rightarrow> 'pp preprocessor \<Rightarrow> ('p, 'f, 'pp) submission list" where
  "heap_for h chain pre = foldl (\<lambda>h sub. setattr_preprocessor h sub pre) h chain"

text \<open>The values given to \<^verbatim>\<open>-n\<close> on the command line, in order.\<close>

fun n_values :: "argument list \<Rightarrow> string list" where
  "n_values [] = []"
| "n_values (Opt_n x # rest) = x # n_values rest"
| "n_values (a # rest) = n_values rest"

text \<open>The calls of the core's operations among the events.\<close>

fun is_core_call :: "('p, 'f, 'c, 'pp, 'sc, 'rs) event \<Rightarrow> bool" where
  "is_core_call (Rank subs archive_subs ignored_files pass n) = True"
| "is_core_call (Compare scores ignored_files pass) = True"
| "is_core_call (Render pass_to_results dest) = True"
| "is_core_call ev = False"

definition core_calls ::
  "('p, 'f, 'c, 'pp, 'sc, 'rs) event list \<Rightarrow> ('p, 'f, 'c, 'pp, 'sc, 'rs) event list" where
  "core_calls evs = filter is_core_call evs"

section \<open>Lemmas\<close>

lemma issubclass_refl [simp]: "issubclass c c"
  by (cases c) (simp_all add: issubclass_def)

lemma get_construct:
  "SubmissionFactory_get env p pre w =
     (case construct env (patterns w) p pre of
        Inl e \<Rightarrow> (Raise e, w)
      | Inr s \<Rightarrow> (Return (length (heap w)), w\<lparr>heap := heap w @ [s]\<rparr>))"
  by (simp add: SubmissionFactory_get_def construct_def split: sum.splits prod.splits)

lemma decodable_files_acc:
  "decodable_files env root xs acc = Inr ys \<Longrightarrow>
     ys = acc @ filter (\<lambda>f. open_read env root f = None) xs"
proof (induction xs arbitrary: acc)
  case Nil
  then show ?case by simp
next
  case (Cons a xs)
  show ?case
  proof (cases "open_read env root a")
    case None
    with Cons.prems have "decodable_files env root xs (acc @ [a]) = Inr ys" by simp
    from Cons.IH [OF this] None show ?thesis by simp
  next
    case (Some e)
    with Cons.prems have "decodable_files env root xs acc = Inr ys"
      by (simp split: if_splits)
    from Cons.IH [OF this] Some show ?thesis by simp
  qed
qed

lemma decodable_files_Inr:
  "decodable_files env root xs [] = Inr ys \<Longrightarrow>
     ys = filter (\<lambda>f. open_read env root f = None) xs"
  using decodable_files_acc [of env root xs "[]" ys] by simp

lemma key_of_append:
  "r < length h \<Longrightarrow> key_of env (h @ xs) r = key_of env h r"
  by (simp add: key_of_def nth_append)

lemma key_of_new:
  "key_of env (h @ [s]) (length h) = Some (submission_key env s)"
  by (simp add: key_of_def)

lemma set_add_keys:
  "set (map (key_of env h) (set_add env h r subs)) =
     insert (key_of env h r) (set (map (key_of env h) subs))"
  by (auto simp: set_add_def)

lemma set_add_distinct:
  "distinct (map (key_of env h) subs) \<Longrightarrow>
     distinct (map (key_of env h) (set_add env h r subs))"
  by (auto simp: set_add_def)

lemma set_add_subset: "set (set_add env h r subs) \<subseteq> insert r (set subs)"
  by (auto simp: set_add_def)

lemma map_key_of_append:
  "\<forall>r \<in> set subs. r < length h \<Longrightarrow> map (key_of env (h @ xs)) subs = map (key_of env h) subs"
  by (induction subs) (simp_all add: key_of_append)

lemma get_all_loop_Return:
  assumes "\<forall>p \<in> set paths. \<forall>e. construct env (patterns w) p pre = Inl e
             \<longrightarrow> issubclass (exc_class e) ApiError"
      and "\<forall>r \<in> set subs. r < length (heap w)"
      and "distinct (map (key_of env (heap w)) subs)"
  shows "\<exists>subs'. get_all_loop env paths pre subs w =
            (Return subs', w\<lparr>heap := heap w @ constructed env (patterns w) paths pre\<rparr>) \<and>
          (\<forall>r \<in> set subs'. r < length (heap w) + length (constructed env (patterns w) paths pre)) \<and>
          set subs' \<subseteq> set subs \<union>
             {length (heap w) ..< length (heap w) + length (constructed env (patterns w) paths pre)} \<and>
          distinct (map (key_of env (heap w @ constructed env (patterns w) paths pre)) subs') \<and>
          set (map (key_of env (heap w @ constructed env (patterns w) paths pre)) subs') =
            set (map (key_of env (heap w)) subs) \<union>
            (Some \<circ> submission_key env) ` set (constructed env (patterns w) paths pre)"
  using assms
proof (induction paths arbitrary: subs w)
  case Nil
  then show ?case by simp
next
  case (Cons p ps)
  show ?case
  proof (cases "construct env (patterns w) p pre")
    case (Inl e)
    with Cons.prems(1) have api: "issubclass (exc_class e) ApiError" by simp
    from Cons.IH [of w subs] Cons.prems
    obtain subs' where
      "get_all_loop env ps pre subs w =
         (Return subs', w\<lparr>heap := heap w @ constructed env (patterns w) ps pre\<rparr>)"
      "\<forall>r \<in> set subs'. r < length (heap w) + length (constructed env (patterns w) ps pre)"
      "set subs' \<subseteq> set subs \<union>
         {length (heap w) ..< length (heap w) + length (constructed env (patterns w) ps pre)}"
      "distinct (map (key_of env (heap w @ constructed env (patterns w) ps pre)) subs')"
      "set (map (key_of env (heap w @ constructed env (patterns w) ps pre)) subs') =
         set (map (key_of env (heap w)) subs) \<union>
         (Some \<circ> submission_key env) ` set (constructed env (patterns w) ps pre)"
      by auto
    with Inl api show ?thesis
      by (simp add: get_construct)
  next
    case (Inr s)
    let ?w = "w\<lparr>heap := heap w @ [s]\<rparr>"
    let ?subs = "set_add env (heap ?w) (length (heap w)) subs"
    let ?cs = "constructed env (patterns w) ps pre"
    have old: "map (key_of env (heap w @ [s])) subs = map (key_of env (heap w)) subs"
      using Cons.prems(2) by (rule map_key_of_append)
    have p1: "\<forall>p \<in> set ps. \<forall>e. construct env (patterns ?w) p pre = Inl e
               \<longrightarrow> issubclass (exc_class e) ApiError"
      using Cons.prems(1) by simp
    have p2: "\<forall>r \<in> set ?subs. r < length (heap ?w)"
      using Cons.prems(2) set_add_subset [of env "heap ?w" "length (heap w)" subs]
      by (auto simp: less_Suc_eq)
    have d: "distinct (map (key_of env (heap w @ [s])) subs)"
      unfolding old by (rule Cons.prems(3))
    have p3: "distinct (map (key_of env (heap ?w)) ?subs)"
      using set_add_distinct [OF d] by simp
    from Cons.IH [OF p1 p2 p3]
    obtain subs' where r:
      "get_all_loop env ps pre ?subs ?w = (Return subs', ?w\<lparr>heap := heap ?w @ ?cs\<rparr>)"
      "\<forall>r \<in> set subs'. r < length (heap ?w) + length ?cs"
      "set subs' \<subseteq> set ?subs \<union> {length (heap ?w) ..< length (heap ?w) + length ?cs}"
      "distinct (map (key_of env (heap ?w @ ?cs)) subs')"
      "set (map (key_of env (heap ?w @ ?cs)) subs') =
         set (map (key_of env (heap ?w)) ?subs) \<union> (Some \<circ> submission_key env) ` set ?cs"
      by auto
    have keys: "set (map (key_of env (heap ?w)) ?subs) =
                  insert (Some (submission_key env s)) (set (map (key_of env (heap w)) subs))"
    proof -
      have "set (map (key_of env (heap w @ [s]))
                   (set_add env (heap w @ [s]) (length (heap w)) subs)) =
              insert (key_of env (heap w @ [s]) (length (heap w)))
                (set (map (key_of env (heap w @ [s])) subs))"
        by (rule set_add_keys)
      then show ?thesis unfolding old key_of_new by simp
    qed
    have sub: "set ?subs \<subseteq> insert (length (heap w)) (set subs)"
      by (rule set_add_subset)
    have cs: "constructed env (patterns w) (p # ps) pre = s # ?cs"
      using Inr by simp
    have c1: "get_all_loop env (p # ps) pre subs w =
                (Return subs', w\<lparr>heap := heap w @ s # ?cs\<rparr>)"
      using Inr r(1) by (simp add: get_construct)
    have c2: "\<forall>r \<in> set subs'. r < length (heap w) + length (s # ?cs)"
      using r(2) by simp
    have c3: "set subs' \<subseteq> set subs \<union> {length (heap w) ..< length (heap w) + length (s # ?cs)}"
    proof
      fix x assume "x \<in> set subs'"
      with r(3) have "x \<in> set ?subs \<or> x \<in> {length (heap ?w) ..< length (heap ?w) + length ?cs}"
        by blast
      then show "x \<in> set subs \<union> {length (heap w) ..< length (heap w) + length (s # ?cs)}"
        using sub by auto
    qed
    have c4: "distinct (map (key_of env (heap w @ s # ?cs)) subs')"
      using r(4) by simp
    have c5: "set (map (key_of env (heap w @ s # ?cs)) subs') =
                set (map (key_of env (heap w)) subs) \<union>
                (Some \<circ> submission_key env) ` set (s # ?cs)"
      using r(5) unfolding keys by auto
    show ?thesis
      unfolding cs using c1 c2 c3 c4 c5 by blast
  qed
qed


lemma decodable_files_all:
  "decodable_files env root xs acc = Inr ys \<Longrightarrow> f \<in> set xs \<Longrightarrow>
     (case open_read env root f of
        None \<Rightarrow> True
      | Some e \<Rightarrow> issubclass (exc_class e) UnicodeDecodeError)"
proof (induction xs arbitrary: acc)
  case Nil
  then show ?case by simp
next
  case (Cons a xs)
  show ?case
  proof (cases "open_read env root a")
    case None
    with Cons.prems have "decodable_files env root xs (acc @ [a]) = Inr ys" by simp
    from Cons.IH [OF this] Cons.prems(2) None show ?thesis by auto
  next
    case (Some e)
    with Cons.prems have d: "decodable_files env root xs acc = Inr ys"
      and u: "issubclass (exc_class e) UnicodeDecodeError"
      by (simp_all split: if_splits)
    from Cons.IH [OF d] Cons.prems(2) Some u show ?thesis by auto
  qed
qed

lemma included_files_distinct:
  "included_files env pats p = Inr (included, root) \<Longrightarrow> distinct included"
  by (auto simp: included_files_def split: if_splits sum.splits prod.splits)

text \<open>
  Claim C7. When \<^verbatim>\<open>_get\<close> returns, the new submission is rooted where the files were
  discovered, and its list of relative paths is the sorted list of exactly those
  discovered files whose read decodes; every discovered file left out raised
  \<^verbatim>\<open>UnicodeDecodeError\<close>. The discovered files have no duplicates, being the single
  name of a regular file or the set that \<^verbatim>\<open>lib50.files\<close> returns, and so the list has
  none.
\<close>

theorem get_files:
  assumes "SubmissionFactory_get env path0 pre w = (Return r, w')"
  shows "\<exists>included root s.
           included_files env (patterns w) (pathlib_Path env path0) = Inr (included, root) \<and>
           r = length (heap w) \<and> w' = w\<lparr>heap := heap w @ [s]\<rparr> \<and>
           path s = root \<and> preprocessor s = pre \<and>
           files s = sort (filter (\<lambda>f. open_read env root f = None) included) \<and>
           sorted (files s) \<and>
           set (files s) = {f \<in> set included. open_read env root f = None} \<and>
           distinct included \<and> distinct (files s) \<and>
           (\<forall>f \<in> set included. f \<notin> set (files s) \<longrightarrow>
              (\<exists>e. open_read env root f = Some e \<and>
                   issubclass (exc_class e) UnicodeDecodeError))"
proof -
  from assms obtain included root where
    inc: "included_files env (patterns w) (pathlib_Path env path0) = Inr (included, root)"
    by (auto simp: SubmissionFactory_get_def split: sum.splits)
  with assms obtain decodable where
    dec: "decodable_files env root included [] = Inr decodable"
    by (auto simp: SubmissionFactory_get_def split: sum.splits)
  let ?s = "\<lparr>path = root, files = sort decodable, preprocessor = pre\<rparr>"
  from assms inc dec have res: "r = length (heap w)" "w' = w\<lparr>heap := heap w @ [?s]\<rparr>"
    by (auto simp: SubmissionFactory_get_def split: if_splits)
  have fl: "decodable = filter (\<lambda>f. open_read env root f = None) included"
    using dec by (rule decodable_files_Inr)
  have un: "\<forall>f \<in> set included. f \<notin> set (files ?s) \<longrightarrow>
              (\<exists>e. open_read env root f = Some e \<and>
                   issubclass (exc_class e) UnicodeDecodeError)"
  proof (intro ballI impI)
    fix f assume f: "f \<in> set included" "f \<notin> set (files ?s)"
    from decodable_files_all [OF dec f(1)] f fl
    show "\<exists>e. open_read env root f = Some e \<and> issubclass (exc_class e) UnicodeDecodeError"
      by (cases "open_read env root f") auto
  qed
  have "included_files env (patterns w) (pathlib_Path env path0) = Inr (included, root) \<and>
        r = length (heap w) \<and> w' = w\<lparr>heap := heap w @ [?s]\<rparr> \<and>
        path ?s = root \<and> preprocessor ?s = pre \<and>
        files ?s = sort (filter (\<lambda>f. open_read env root f = None) included) \<and>
        sorted (files ?s) \<and>
        set (files ?s) = {f \<in> set included. open_read env root f = None} \<and>
        distinct included \<and> distinct (files ?s) \<and>
        (\<forall>f \<in> set included. f \<notin> set (files ?s) \<longrightarrow>
           (\<exists>e. open_read env root f = Some e \<and>
                issubclass (exc_class e) UnicodeDecodeError))"
    using inc res un included_files_distinct [OF inc] by (simp add: fl)
  then show ?thesis by blast
qed

text \<open>
  Claim C9. For a path that is a regular file, \<^verbatim>\<open>_get\<close> does not depend on
  \<^verbatim>\<open>lib50.files\<close> nor on the patterns: if the file decodes, the submission is rooted at
  the parent directory and its files are the single name of the file; if reading it
  raises \<^verbatim>\<open>UnicodeDecodeError\<close>, the submission is empty and the domain error is raised;
  any other exception of the read is raised as it is.
\<close>

theorem get_regular_file:
  assumes "path_is_file env (pathlib_Path env path0)"
  shows "SubmissionFactory_get (env\<lparr>lib50_files := lf\<rparr>) path0 pre (w\<lparr>patterns := pats\<rparr>) =
           (case open_read env (path_parent env (pathlib_Path env path0))
                   (path_name env (pathlib_Path env path0)) of
              None \<Rightarrow>
                (Return (length (heap w)),
                 w\<lparr>patterns := pats,
                   heap := heap w @
                     [\<lparr>path = path_parent env (pathlib_Path env path0),
                       files = [path_name env (pathlib_Path env path0)],
                       preprocessor = pre\<rparr>]\<rparr>)
            | Some e \<Rightarrow>
                if issubclass (exc_class e) UnicodeDecodeError then
                  (Raise (raise_exc ApiError
                     [''Empty submission: '' @
                      path_str env (path_parent env (pathlib_Path env path0))]),
                   w\<lparr>patterns := pats\<rparr>)
                else (Raise e, w\<lparr>patterns := pats\<rparr>))"
  using assms
  by (simp add: SubmissionFactory_get_def included_files_def split: option.splits)

lemma get_all_loop_abort:
  assumes "\<forall>x \<in> set xs. \<forall>e'. construct env (patterns w) x pre = Inl e'
             \<longrightarrow> issubclass (exc_class e') ApiError"
      and "construct env (patterns w) p pre = Inl e"
      and "\<not> issubclass (exc_class e) ApiError"
  shows "get_all_loop env (xs @ p # ys) pre subs w =
           (Raise e, w\<lparr>heap := heap w @ constructed env (patterns w) xs pre\<rparr>)"
  using assms
proof (induction xs arbitrary: subs w)
  case Nil
  then show ?case by (simp add: get_construct)
next
  case (Cons x xs)
  show ?case
  proof (cases "construct env (patterns w) x pre")
    case (Inl e')
    with Cons.prems have "issubclass (exc_class e') ApiError" by simp
    with Inl Cons.IH [of w subs] Cons.prems show ?thesis
      by (simp add: get_construct)
  next
    case (Inr s)
    let ?w = "w\<lparr>heap := heap w @ [s]\<rparr>"
    have "get_all_loop env (xs @ p # ys) pre (set_add env (heap ?w) (length (heap w)) subs) ?w =
            (Raise e, ?w\<lparr>heap := heap ?w @ constructed env (patterns ?w) xs pre\<rparr>)"
      using Cons.prems by (intro Cons.IH) simp_all
    with Inr show ?thesis by (simp add: get_construct)
  qed
qed

text \<open>
  Claim C8, as the code has it. When every path either constructs a submission or
  raises the domain error of the core, \<^verbatim>\<open>get_all\<close> returns, nothing but the new objects
  is added to the state and nothing is reported, and the returned set holds exactly the
  submissions constructed from the paths: every constructed submission is equal to one
  element, and no two elements are equal. A path whose construction raises any other
  exception is not dropped: \<^verbatim>\<open>get_all\<close> raises the exception of the first such path,
  after the objects of the paths before it have been built.
\<close>

theorem get_all_deduplicates:
  "((\<forall>p \<in> set paths. \<forall>e. construct env (patterns w) p pre = Inl e
        \<longrightarrow> issubclass (exc_class e) ApiError) \<longrightarrow>
      (\<exists>subs. get_all env paths pre w =
            (Return subs, w\<lparr>heap := heap w @ constructed env (patterns w) paths pre\<rparr>) \<and>
          set subs \<subseteq> {length (heap w) ..<
                        length (heap w) + length (constructed env (patterns w) paths pre)} \<and>
          distinct (map (key_of env (heap w @ constructed env (patterns w) paths pre)) subs) \<and>
          set (map (key_of env (heap w @ constructed env (patterns w) paths pre)) subs) =
            (Some \<circ> submission_key env) ` set (constructed env (patterns w) paths pre))) \<and>
   ((\<forall>x \<in> set xs. \<forall>e'. construct env (patterns w) x pre = Inl e'
        \<longrightarrow> issubclass (exc_class e') ApiError) \<and>
    construct env (patterns w) p pre = Inl e \<and> \<not> issubclass (exc_class e) ApiError \<longrightarrow>
      get_all env (xs @ p # ys) pre w =
        (Raise e, w\<lparr>heap := heap w @ constructed env (patterns w) xs pre\<rparr>))"
proof (intro conjI impI)
  assume h: "\<forall>p \<in> set paths. \<forall>e. construct env (patterns w) p pre = Inl e
               \<longrightarrow> issubclass (exc_class e) ApiError"
  from get_all_loop_Return [OF h, of "[]"]
  show "\<exists>subs. get_all env paths pre w =
            (Return subs, w\<lparr>heap := heap w @ constructed env (patterns w) paths pre\<rparr>) \<and>
          set subs \<subseteq> {length (heap w) ..<
                        length (heap w) + length (constructed env (patterns w) paths pre)} \<and>
          distinct (map (key_of env (heap w @ constructed env (patterns w) paths pre)) subs) \<and>
          set (map (key_of env (heap w @ constructed env (patterns w) paths pre)) subs) =
            (Some \<circ> submission_key env) ` set (constructed env (patterns w) paths pre)"
    by (auto simp: get_all_def)
next
  assume "(\<forall>x \<in> set xs. \<forall>e'. construct env (patterns w) x pre = Inl e'
             \<longrightarrow> issubclass (exc_class e') ApiError) \<and>
          construct env (patterns w) p pre = Inl e \<and> \<not> issubclass (exc_class e) ApiError"
  then show "get_all env (xs @ p # ys) pre w =
               (Raise e, w\<lparr>heap := heap w @ constructed env (patterns w) xs pre\<rparr>)"
    unfolding get_all_def by (intro get_all_loop_abort) blast+
qed


lemmas demo_defs = demo_env_def demo_registry_def demo_world_def initial_world_def
  raise_exc_def issubclass_def

theorem get_files_witness:
  "SubmissionFactory_get demo_env ''alice'' (Preprocessor []) demo_world =
     (Return 0, demo_world\<lparr>heap := [\<lparr>path = ''alice'', files = [''a.c'', ''b.c''],
                                    preprocessor = Preprocessor []\<rparr>]\<rparr>) \<and>
   (\<exists>included root s.
       included_files demo_env (patterns demo_world) (pathlib_Path demo_env ''alice'') =
         Inr (included, root) \<and>
       demo_world\<lparr>heap := [\<lparr>path = ''alice'', files = [''a.c'', ''b.c''],
                             preprocessor = Preprocessor []\<rparr>]\<rparr> =
         demo_world\<lparr>heap := heap demo_world @ [s]\<rparr> \<and>
       files s = sort (filter (\<lambda>f. open_read demo_env root f = None) included) \<and>
       sorted (files s) \<and> distinct (files s) \<and>
       set (files s) = {f \<in> set included. open_read demo_env root f = None})"
proof -
  have h: "SubmissionFactory_get demo_env ''alice'' (Preprocessor []) demo_world =
     (Return 0, demo_world\<lparr>heap := [\<lparr>path = ''alice'', files = [''a.c'', ''b.c''],
                                    preprocessor = Preprocessor []\<rparr>]\<rparr>)"
    by (simp add: SubmissionFactory_get_def included_files_def demo_defs)
  from get_files [OF h] h show ?thesis by blast
qed

lemma core_calls_append [simp]: "core_calls (xs @ ys) = core_calls xs @ core_calls ys"
  by (simp add: core_calls_def)

lemma core_calls_Nil [simp]: "core_calls [] = []"
  by (simp add: core_calls_def)

lemma core_calls_Cons:
  "core_calls (ev # evs) = (if is_core_call ev then ev # core_calls evs else core_calls evs)"
  by (simp add: core_calls_def)

subsection \<open>then_do\<close>

lemma then_do_Return:
  "then_do m f = (Return x, w') \<Longrightarrow> \<exists>y w1. m = (Return y, w1) \<and> f y w1 = (Return x, w')"
  by (cases m) (auto simp: then_do_def split: outcome.splits)

lemma then_do_cases:
  "then_do m f = (out, w') \<Longrightarrow>
     (\<exists>y w1. m = (Return y, w1) \<and> f y w1 = (out, w')) \<or>
     (\<exists>e. m = (Raise e, w') \<and> out = Raise e) \<or>
     (\<exists>c. m = (SysExit c, w') \<and> out = SysExit c)"
  by (cases m) (auto simp: then_do_def split: outcome.splits)

subsection \<open>The parser\<close>

lemma IncludeExcludeAction_frame:
  assumes "\<And>v w. verbose (cb v w) = verbose w \<and> trace (cb v w) = trace w \<and>
             heap (cb v w) = heap w \<and> api_Executor (cb v w) = api_Executor w"
  shows "verbose (IncludeExcludeAction_call cb vs w) = verbose w \<and>
         trace (IncludeExcludeAction_call cb vs w) = trace w \<and>
         heap (IncludeExcludeAction_call cb vs w) = heap w \<and>
         api_Executor (IncludeExcludeAction_call cb vs w) = api_Executor w"
  unfolding IncludeExcludeAction_call_def
  by (induction vs arbitrary: w) (simp_all add: assms)

lemma include_frame:
  "verbose (IncludeExcludeAction_call SubmissionFactory_include vs w) = verbose w \<and>
   trace (IncludeExcludeAction_call SubmissionFactory_include vs w) = trace w \<and>
   heap (IncludeExcludeAction_call SubmissionFactory_include vs w) = heap w \<and>
   api_Executor (IncludeExcludeAction_call SubmissionFactory_include vs w) = api_Executor w"
  by (rule IncludeExcludeAction_frame) (simp add: SubmissionFactory_include_def)

lemma exclude_frame:
  "verbose (IncludeExcludeAction_call SubmissionFactory_exclude vs w) = verbose w \<and>
   trace (IncludeExcludeAction_call SubmissionFactory_exclude vs w) = trace w \<and>
   heap (IncludeExcludeAction_call SubmissionFactory_exclude vs w) = heap w \<and>
   api_Executor (IncludeExcludeAction_call SubmissionFactory_exclude vs w) = api_Executor w"
  by (rule IncludeExcludeAction_frame) (simp add: SubmissionFactory_exclude_def)

lemma parse_known_args_Return:
  "parse_known_args env argv st w = (Return st', w') \<Longrightarrow>
     args_verbose (fst st') = (args_verbose (fst st) \<or> Opt_verbose \<in> set argv) \<and>
     (n_values argv = [] \<longrightarrow> args_n (fst st') = args_n (fst st)) \<and>
     (n_values argv \<noteq> [] \<longrightarrow> builtin_int env (last (n_values argv)) = Some (args_n (fst st'))) \<and>
     verbose w' = verbose w \<and> trace w' = trace w \<and> heap w' = heap w \<and>
     api_Executor w' = api_Executor w"
proof (induction env argv st w rule: parse_known_args.induct)
  case (6 env xs rest ns seen extras w)
  then show ?case
    using include_frame [of xs w]
    by (auto simp: ArgParser_error_def split: if_splits)
next
  case (7 env xs rest ns seen extras w)
  then show ?case
    using exclude_frame [of xs w]
    by (auto simp: ArgParser_error_def split: if_splits)
next
  case (11 env x rest ns seen extras w)
  then show ?case
    by (cases "builtin_int env x") (auto simp: ArgParser_error_def split: if_splits)
qed (auto simp: ArgParser_error_def ListAction_call_def split: if_splits)

lemma ArgParser_error_exit: "fst (ArgParser_error m w) = SysExit 2"
  by (simp add: ArgParser_error_def)

lemma errI: "ArgParser_error m w0 = r \<Longrightarrow> \<exists>m w0. r = ArgParser_error m w0"
  by blast

lemma err_retype:
  "(SysExit c, w') = (ArgParser_error m w0 :: 'a outcome \<times> _) \<Longrightarrow>
   (SysExit c, w') = (ArgParser_error m w0 :: 'b outcome \<times> _)"
  by (simp add: ArgParser_error_def)

lemma parse_known_args_other:
  "parse_known_args env argv st w = (out, w') \<Longrightarrow>
     (\<exists>st'. out = Return st') \<or>
     (\<exists>m w0. (out, w') = ArgParser_error m w0) \<or>
     (out = SysExit 0 \<and> (Opt_list \<in> set argv \<or> Opt_version \<in> set argv \<or> Opt_help \<in> set argv))"
proof (induction env argv st w rule: parse_known_args.induct)
  case (2 env xs rest ns seen extras w)
  then show ?case by (auto split: if_splits)
next
  case (3 env xs rest ns seen extras w)
  then show ?case by (cases "xs = []") (auto dest: errI)
next
  case (4 env xs rest ns seen extras w)
  then show ?case by (cases "xs = []") (auto dest: errI)
next
  case (5 env xs rest ns seen extras w)
  then show ?case by (cases "xs = []") (auto dest: errI)
next
  case (6 env xs rest ns seen extras w)
  then show ?case by (cases "xs = []") (auto dest: errI)
next
  case (7 env xs rest ns seen extras w)
  then show ?case by (cases "xs = []") (auto dest: errI)
next
  case (11 env x rest ns seen extras w)
  then show ?case by (cases "builtin_int env x") (auto dest: errI)
qed (auto simp: ListAction_call_def)

lemma parse_args_Return:
  assumes "parse_args env argv w = (Return args, w')"
  shows "args_verbose args = (Opt_verbose \<in> set argv) \<and>
         (n_values argv = [] \<longrightarrow> args_n args = 50) \<and>
         (n_values argv \<noteq> [] \<longrightarrow> builtin_int env (last (n_values argv)) = Some (args_n args)) \<and>
         verbose w' = verbose w \<and> trace w' = trace w \<and> heap w' = heap w \<and>
         api_Executor w' = api_Executor w"
proof -
  from assms obtain st where
    p: "parse_known_args env argv (default_args env, False, []) w = (Return st, w')"
      and a: "args = fst st"
    by (auto simp: parse_args_def ArgParser_error_def split: prod.splits outcome.splits if_splits)
  from parse_known_args_Return [OF p] a show ?thesis
    by (simp add: default_args_def)
qed

lemma parse_args_other:
  assumes "parse_args env argv w = (out, w')"
  shows "(\<exists>args. out = Return args) \<or>
         (\<exists>m w0. (out, w') = ArgParser_error m w0) \<or>
         (out = SysExit 0 \<and> (Opt_list \<in> set argv \<or> Opt_version \<in> set argv \<or> Opt_help \<in> set argv))"
proof (cases "parse_known_args env argv (default_args env, False, []) w")
  case (Pair o1 w1)
  show ?thesis
  proof (cases o1)
    case (Return st)
    obtain ns seen extras where st: "st = (ns, seen, extras)" by (cases st)
    show ?thesis
    proof (cases "\<not> seen \<or> extras \<noteq> []")
      case True
      with Pair Return st assms obtain m where "ArgParser_error m w1 = (out, w')"
        by (auto simp: parse_args_def split: if_splits)
      then show ?thesis by (auto dest: errI)
    next
      case False
      with Pair Return st assms show ?thesis by (auto simp: parse_args_def)
    qed
  next
    case (Raise e)
    with Pair parse_known_args_other [OF Pair] show ?thesis
      by (auto simp: ArgParser_error_def)
  next
    case (SysExit c)
    with Pair assms have "out = SysExit c" "w1 = w'"
      by (simp_all add: parse_args_def)
    with SysExit parse_known_args_other [OF Pair] show ?thesis
      by (auto dest: err_retype)
  qed
qed

subsection \<open>Setting the preprocessor of the collected submissions\<close>

lemma heap_for_Cons:
  "heap_for h (sub # chain) pre = heap_for (setattr_preprocessor h sub pre) chain pre"
  by (simp add: heap_for_def)

lemma length_heap_for [simp]: "length (heap_for h chain pre) = length h"
  by (induction chain arbitrary: h) (simp_all add: heap_for_def setattr_preprocessor_def)

lemma nth_list_update_total:
  "(xs[i := x]) ! j = (if i = j \<and> j < length xs then x else xs ! j)"
  by (cases "i < length xs") (auto simp: nth_list_update list_update_beyond)

lemma heap_for_nth:
  "i < length h \<Longrightarrow>
     heap_for h chain pre ! i =
       (if i \<in> set chain then (h ! i)\<lparr>preprocessor := pre\<rparr> else h ! i)"
proof (induction chain arbitrary: h)
  case Nil
  then show ?case by (simp add: heap_for_def)
next
  case (Cons sub chain)
  have "i < length (setattr_preprocessor h sub pre)"
    using Cons.prems by (simp add: setattr_preprocessor_def)
  from Cons.IH [OF this] Cons.prems show ?case
    by (auto simp: heap_for_Cons setattr_preprocessor_def nth_list_update_total)
qed

lemma heap_for_twice:
  "heap_for (heap_for h chain pre1) chain pre2 = heap_for h chain pre2"
  by (rule nth_equalityI) (simp_all add: heap_for_nth)

lemma heap_for_Nil [simp]: "heap_for h [] pre = h"
  by (simp add: heap_for_def)

subsection \<open>The loop over the passes\<close>

lemma compare_passes_frame:
  "compare_passes env sc ign chain passes d w = (out, w') \<Longrightarrow>
     verbose w' = verbose w \<and> patterns w' = patterns w \<and> api_Executor w' = api_Executor w \<and>
     length (heap w') = length (heap w) \<and>
     (\<forall>c. out \<noteq> SysExit c) \<and>
     (\<exists>k \<le> length passes.
        core_calls (trace w') = core_calls (trace w) @ map (Compare sc ign) (take k passes))"
proof (induction passes arbitrary: d w)
  case Nil
  then show ?case by auto
next
  case (Cons p ps)
  let ?w3 = "emit (Compare sc ign p)
               ((emit (ProgressNew (''Comparing ('' @ pass_name p @ '')'')) w)
                  \<lparr>heap := heap_for (heap w) chain (Preprocessor (pass_preprocessors p))\<rparr>)"
  have w3: "verbose ?w3 = verbose w" "patterns ?w3 = patterns w"
    "api_Executor ?w3 = api_Executor w" "length (heap ?w3) = length (heap w)"
    "core_calls (trace ?w3) = core_calls (trace w) @ [Compare sc ign p]"
    by (simp_all add: emit_def core_calls_def)
  show ?case
  proof (cases "api_compare env (heap ?w3) sc ign p")
    case (Inl e)
    with Cons.prems have "out = Raise e" "w' = ?w3"
      by (simp_all add: Let_def heap_for_def emit_def)
    with w3 show ?thesis
      by (auto intro!: exI [of _ "Suc 0"])
  next
    case (Inr r)
    with Cons.prems have
      "compare_passes env sc ign chain ps (AList.update p r d) ?w3 = (out, w')"
      by (simp add: Let_def heap_for_def emit_def)
    from Cons.IH [OF this] obtain k where
      k: "k \<le> length ps"
      "core_calls (trace w') = core_calls (trace ?w3) @ map (Compare sc ign) (take k ps)"
      and f: "verbose w' = verbose ?w3" "patterns w' = patterns ?w3"
      "api_Executor w' = api_Executor ?w3" "\<forall>c. out \<noteq> SysExit c"
      "length (heap w') = length (heap ?w3)"
      by blast
    from k f w3 show ?thesis
      by (auto intro!: exI [of _ "Suc k"])
  qed
qed

lemma compare_passes_Return:
  "compare_passes env sc ign chain passes d w = (Return d', w') \<Longrightarrow>
     core_calls (trace w') = core_calls (trace w) @ map (Compare sc ign) passes \<and>
     heap w' = (if passes = [] then heap w
                else heap_for (heap w) chain (Preprocessor (pass_preprocessors (last passes)))) \<and>
     (\<forall>p \<in> set passes. \<exists>r.
        api_compare env (heap_for (heap w) chain (Preprocessor (pass_preprocessors p)))
          sc ign p = Inr r \<and> map_of d' p = Some r) \<and>
     (\<forall>q. q \<notin> set passes \<longrightarrow> map_of d' q = map_of d q) \<and>
     fst ` set d' = fst ` set d \<union> set passes"
proof (induction passes arbitrary: d w)
  case Nil
  then show ?case by auto
next
  case (Cons p ps)
  let ?h = "heap_for (heap w) chain (Preprocessor (pass_preprocessors p))"
  let ?w3 = "emit (Compare sc ign p)
               ((emit (ProgressNew (''Comparing ('' @ pass_name p @ '')'')) w)
                  \<lparr>heap := ?h\<rparr>)"
  have h3: "heap ?w3 = ?h" by (simp add: emit_def)
  have c3: "core_calls (trace ?w3) = core_calls (trace w) @ [Compare sc ign p]"
    by (simp add: emit_def core_calls_def)
  from Cons.prems obtain r where
    r: "api_compare env ?h sc ign p = Inr r"
    and rec: "compare_passes env sc ign chain ps (AList.update p r d) ?w3 = (Return d', w')"
    by (cases "api_compare env ?h sc ign p")
       (simp_all add: Let_def heap_for_def emit_def)
  from Cons.IH [OF rec] have
    ih1: "core_calls (trace w') = core_calls (trace ?w3) @ map (Compare sc ign) ps"
    and ih2: "heap w' = (if ps = [] then heap ?w3
                else heap_for (heap ?w3) chain (Preprocessor (pass_preprocessors (last ps))))"
    and ih3: "\<forall>q \<in> set ps. \<exists>r.
        api_compare env (heap_for (heap ?w3) chain (Preprocessor (pass_preprocessors q)))
          sc ign q = Inr r \<and> map_of d' q = Some r"
    and ih5: "\<forall>q. q \<notin> set ps \<longrightarrow> map_of d' q = map_of (AList.update p r d) q"
    and ih4: "fst ` set d' = fst ` set (AList.update p r d) \<union> set ps"
    by blast+
  have g1: "core_calls (trace w') = core_calls (trace w) @ map (Compare sc ign) (p # ps)"
    using ih1 c3 by simp
  have g2: "heap w' = heap_for (heap w) chain (Preprocessor (pass_preprocessors (last (p # ps))))"
    using ih2 h3 by (simp add: heap_for_twice)
  have g3: "\<forall>q \<in> set (p # ps). \<exists>r.
        api_compare env (heap_for (heap w) chain (Preprocessor (pass_preprocessors q)))
          sc ign q = Inr r \<and> map_of d' q = Some r"
  proof
    fix q assume q: "q \<in> set (p # ps)"
    show "\<exists>r. api_compare env (heap_for (heap w) chain (Preprocessor (pass_preprocessors q)))
                 sc ign q = Inr r \<and> map_of d' q = Some r"
    proof (cases "q \<in> set ps")
      case True
      with ih3 [unfolded h3 heap_for_twice] show ?thesis by blast
    next
      case False
      with q have qp: "q = p" by simp
      have "map_of d' p = map_of (AList.update p r d) p"
        using ih5 False qp by simp
      then show ?thesis using r qp by (simp add: update_conv')
    qed
  qed
  have g4: "fst ` set d' = fst ` set d \<union> set (p # ps)"
    using ih4 unfolding dom_update by auto
  have g5: "\<forall>q. q \<notin> set (p # ps) \<longrightarrow> map_of d' q = map_of d q"
    using ih5 by (simp add: update_conv')
  from g1 g2 g3 g4 g5 show ?case by simp
qed

subsection \<open>Collecting\<close>

lemma get_all_loop_frame:
  "get_all_loop env paths pre subs w = (out, w') \<Longrightarrow>
     verbose w' = verbose w \<and> trace w' = trace w \<and> patterns w' = patterns w \<and>
     api_Executor w' = api_Executor w \<and> (\<forall>c. out \<noteq> SysExit c)"
proof (induction paths arbitrary: subs w)
  case Nil
  then show ?case by auto
next
  case (Cons p ps)
  show ?case
  proof (cases "construct env (patterns w) p pre")
    case (Inl e)
    show ?thesis
    proof (cases "issubclass (exc_class e) ApiError")
      case True
      with Inl Cons.prems have "get_all_loop env ps pre subs w = (out, w')"
        by (simp add: get_construct)
      from Cons.IH [OF this] show ?thesis .
    next
      case False
      with Inl Cons.prems show ?thesis by (auto simp: get_construct)
    qed
  next
    case (Inr s)
    with Cons.prems have
      "get_all_loop env ps pre
         (set_add env (heap w @ [s]) (length (heap w)) subs) (w\<lparr>heap := heap w @ [s]\<rparr>) =
       (out, w')"
      by (simp add: get_construct)
    from Cons.IH [OF this] show ?thesis by simp
  qed
qed

lemma get_all_frame:
  "get_all env paths pre w = (out, w') \<Longrightarrow>
     verbose w' = verbose w \<and> trace w' = trace w \<and> patterns w' = patterns w \<and>
     api_Executor w' = api_Executor w \<and> (\<forall>c. out \<noteq> SysExit c)"
  unfolding get_all_def by (rule get_all_loop_frame)

lemma collect_frame:
  assumes "collect env args pre w = (out, w')"
  shows "verbose w' = verbose w \<and> core_calls (trace w') = core_calls (trace w) \<and>
         patterns w' = patterns w \<and> api_Executor w' = api_Executor w \<and>
         (\<forall>c. out \<noteq> SysExit c)"
proof -
  obtain o1 w1 where g1: "get_all env (args_submissions args) pre w = (o1, w1)"
    by (cases "get_all env (args_submissions args) pre w")
  note f1 = get_all_frame [OF g1]
  show ?thesis
  proof (cases o1)
    case (Return subs)
    obtain o2 w2 where
      g2: "get_all env (args_archive args) pre (emit (ProgressUpdate 33) w1) = (o2, w2)"
      by (cases "get_all env (args_archive args) pre (emit (ProgressUpdate 33) w1)")
    note f2 = get_all_frame [OF g2]
    show ?thesis
    proof (cases o2)
      case r2: (Return archive_subs)
      obtain o3 w3 where
        g3: "get_all env (args_distro args) pre (emit (ProgressUpdate 33) w2) = (o3, w3)"
        by (cases "get_all env (args_distro args) pre (emit (ProgressUpdate 33) w2)")
      note f3 = get_all_frame [OF g3]
      from assms g1 Return g2 r2 g3 have "w' = w3" "\<forall>c. out \<noteq> SysExit c"
        using f3 by (auto simp: collect_def then_do_def split: outcome.splits)
      with f1 f2 f3 show ?thesis
        by (simp add: emit_def core_calls_def)
    next
      case (Raise e)
      with assms g1 Return g2 have "w' = w2" "out = Raise e"
        by (simp_all add: collect_def then_do_def)
      with f1 f2 show ?thesis by (simp add: emit_def core_calls_def)
    next
      case (SysExit c)
      with f2 show ?thesis by simp
    qed
  next
    case (Raise e)
    with assms g1 have "w' = w1" "out = Raise e"
      by (simp_all add: collect_def then_do_def)
    with f1 show ?thesis by simp
  next
    case (SysExit c)
    with f1 show ?thesis by simp
  qed
qed

subsection \<open>Scoring and comparing\<close>

lemma score_too_few:
  "length subs + length archive_subs < 2 \<Longrightarrow>
     score_and_compare env args passes pass0 subs archive_subs ignored_subs w =
       (Raise (raise_exc ApiError [too_few]), w)"
  by (simp add: score_and_compare_def)

lemma score_enough:
  assumes "\<not> length subs + length archive_subs < 2"
      and "score_and_compare env args passes pass0 subs archive_subs ignored_subs w = (out, w')"
  shows "verbose w' = verbose w \<and> patterns w' = patterns w \<and>
         api_Executor w' = api_Executor w \<and> length (heap w') = length (heap w) \<and>
         (\<forall>c. out \<noteq> SysExit c) \<and>
         (\<exists>rest. core_calls (trace w') =
            core_calls (trace w) @
            Rank subs archive_subs (ignored_files_of (heap w) ignored_subs) pass0 (args_n args)
              # rest \<and>
            (\<forall>a b c p n. Rank a b c p n \<notin> set rest))"
proof -
  let ?ign = "ignored_files_of (heap w) ignored_subs"
  let ?rk = "Rank subs archive_subs ?ign pass0 (args_n args)"
  let ?w2 = "emit ?rk (emit (ProgressNew (''Scoring ('' @ pass_name pass0 @ '')'')) w)"
  have w2: "verbose ?w2 = verbose w" "patterns ?w2 = patterns w"
    "api_Executor ?w2 = api_Executor w" "heap ?w2 = heap w"
    "core_calls (trace ?w2) = core_calls (trace w) @ [?rk]"
    by (simp_all add: emit_def core_calls_def)
  show ?thesis
  proof (cases "api_rank env (heap w) subs archive_subs ?ign pass0 (args_n args)")
    case (Inl e)
    with assms have "out = Raise e" "w' = ?w2"
      by (simp_all add: score_and_compare_def Let_def emit_def)
    with w2 show ?thesis by (intro conjI exI [of _ "[]"]) simp_all
  next
    case (Inr scores)
    obtain o3 w3 where
      cp: "compare_passes env scores ?ign (subs @ archive_subs @ ignored_subs) passes [] ?w2 =
             (o3, w3)"
      by (cases "compare_passes env scores ?ign (subs @ archive_subs @ ignored_subs)
                   passes [] ?w2")
    from compare_passes_frame [OF cp] obtain k where
      f3: "verbose w3 = verbose ?w2" "patterns w3 = patterns ?w2"
        "api_Executor w3 = api_Executor ?w2" "\<forall>c. o3 \<noteq> SysExit c"
        "length (heap w3) = length (heap ?w2)"
        "core_calls (trace w3) =
           core_calls (trace ?w2) @ map (Compare scores ?ign) (take k passes)"
      by blast
    have l3: "length (heap w3) = length (heap w)"
      using f3(5) w2(4) by simp
    have sc: "score_and_compare env args passes pass0 subs archive_subs ignored_subs w =
            then_do (o3, w3)
              (\<lambda>pass_to_results w3.
                 let w4 = emit (ProgressNew ''Rendering'') w3;
                     w5 = emit (Render pass_to_results (args_output args)) w4
                 in case renderer_render env pass_to_results (args_output args) of
                      Inl e \<Rightarrow> (Raise e, w5)
                    | Inr index \<Rightarrow> (Return index, w5))"
      using assms(1) Inr cp
      by (simp add: score_and_compare_def Let_def emit_def)
    have fr3: "verbose w3 = verbose w" "patterns w3 = patterns w"
      "api_Executor w3 = api_Executor w"
      using f3(1-3) w2(1-3) by simp_all
    have c3: "core_calls (trace w3) =
                core_calls (trace w) @ ?rk # map (Compare scores ?ign) (take k passes)"
      using f3(6) w2(5) by simp
    have nr: "\<forall>a b c p n. Rank a b c p n \<notin> set (map (Compare scores ?ign) (take k passes))"
      by auto
    show ?thesis
    proof (cases o3)
      case (Return d)
      let ?w5 = "emit (Render d (args_output args)) (emit (ProgressNew ''Rendering'') w3)"
      from sc Return assms(2) have w': "w' = ?w5" and ne: "\<forall>c. out \<noteq> SysExit c"
        by (auto simp: then_do_def Let_def split: sum.splits)
      have c5: "core_calls (trace w') =
                  core_calls (trace w) @ ?rk #
                    (map (Compare scores ?ign) (take k passes) @ [Render d (args_output args)])"
        using c3 by (simp add: w' emit_def core_calls_def)
      have nr5: "\<forall>a b c p n. Rank a b c p n \<notin>
                   set (map (Compare scores ?ign) (take k passes) @ [Render d (args_output args)])"
        by auto
      have fr5: "verbose w' = verbose w" "patterns w' = patterns w"
        "api_Executor w' = api_Executor w" "length (heap w') = length (heap w)"
        using fr3 l3 by (simp_all add: w' emit_def)
      from fr5 ne c5 nr5 show ?thesis by blast
    next
      case (Raise e)
      with sc assms(2) have w': "w' = w3" and ne: "out = Raise e"
        by (simp_all add: then_do_def)
      from fr3 l3 c3 nr ne show ?thesis unfolding w' by blast
    next
      case (SysExit c)
      with f3 show ?thesis by simp
    qed
  qed
qed

lemma score_Return:
  assumes "score_and_compare env args passes pass0 subs archive_subs ignored_subs w =
             (Return index, w')"
  shows "\<not> length subs + length archive_subs < 2 \<and>
         (\<exists>scores d.
            api_rank env (heap w) subs archive_subs (ignored_files_of (heap w) ignored_subs)
              pass0 (args_n args) = Inr scores \<and>
            core_calls (trace w') =
              core_calls (trace w) @
              Rank subs archive_subs (ignored_files_of (heap w) ignored_subs) pass0 (args_n args)
                # map (Compare scores (ignored_files_of (heap w) ignored_subs)) passes
                @ [Render d (args_output args)] \<and>
            heap w' =
              (if passes = [] then heap w
               else heap_for (heap w) (subs @ archive_subs @ ignored_subs)
                      (Preprocessor (pass_preprocessors (last passes)))) \<and>
            (\<forall>p \<in> set passes. \<exists>r.
               api_compare env
                 (heap_for (heap w) (subs @ archive_subs @ ignored_subs)
                    (Preprocessor (pass_preprocessors p)))
                 scores (ignored_files_of (heap w) ignored_subs) p = Inr r \<and>
               map_of d p = Some r) \<and>
            fst ` set d = set passes \<and>
            renderer_render env d (args_output args) = Inr index)"
proof -
  let ?ign = "ignored_files_of (heap w) ignored_subs"
  let ?chain = "subs @ archive_subs @ ignored_subs"
  let ?rk = "Rank subs archive_subs ?ign pass0 (args_n args)"
  let ?w2 = "emit ?rk (emit (ProgressNew (''Scoring ('' @ pass_name pass0 @ '')'')) w)"
  have w2: "heap ?w2 = heap w" "core_calls (trace ?w2) = core_calls (trace w) @ [?rk]"
    by (simp_all add: emit_def core_calls_def)
  have n2: "\<not> length subs + length archive_subs < 2"
    using assms by (auto simp: score_and_compare_def)
  from assms n2 obtain scores where
    rk: "api_rank env (heap w) subs archive_subs ?ign pass0 (args_n args) = Inr scores"
    by (cases "api_rank env (heap w) subs archive_subs ?ign pass0 (args_n args)")
       (simp_all add: score_and_compare_def Let_def emit_def)
  obtain o3 w3 where
    cp: "compare_passes env scores ?ign ?chain passes [] ?w2 = (o3, w3)"
    by (cases "compare_passes env scores ?ign ?chain passes [] ?w2")
  have sc: "score_and_compare env args passes pass0 subs archive_subs ignored_subs w =
          then_do (o3, w3)
            (\<lambda>pass_to_results w3.
               let w4 = emit (ProgressNew ''Rendering'') w3;
                   w5 = emit (Render pass_to_results (args_output args)) w4
               in case renderer_render env pass_to_results (args_output args) of
                    Inl e \<Rightarrow> (Raise e, w5)
                  | Inr index \<Rightarrow> (Return index, w5))"
    using n2 rk cp
    by (simp add: score_and_compare_def Let_def emit_def)
  from sc assms obtain d where o3: "o3 = Return d"
    by (cases o3) (simp_all add: then_do_def)
  let ?w5 = "emit (Render d (args_output args)) (emit (ProgressNew ''Rendering'') w3)"
  from sc assms o3 have rr: "renderer_render env d (args_output args) = Inr index"
    and w': "w' = ?w5"
    by (auto simp: then_do_def Let_def split: sum.splits)
  from compare_passes_Return [OF cp [unfolded o3]] have
    c1: "core_calls (trace w3) = core_calls (trace ?w2) @ map (Compare scores ?ign) passes"
    and c2: "heap w3 = (if passes = [] then heap ?w2
                else heap_for (heap ?w2) ?chain (Preprocessor (pass_preprocessors (last passes))))"
    and c3: "\<forall>p \<in> set passes. \<exists>r.
        api_compare env (heap_for (heap ?w2) ?chain (Preprocessor (pass_preprocessors p)))
          scores ?ign p = Inr r \<and> map_of d p = Some r"
    by blast+
  have g4: "fst ` set d = set passes"
    using compare_passes_Return [OF cp [unfolded o3]] by simp
  have g1: "core_calls (trace w') =
              core_calls (trace w) @ ?rk # map (Compare scores ?ign) passes
                @ [Render d (args_output args)]"
    using c1 w2(2) by (simp add: w' emit_def core_calls_def)
  have g2: "heap w' = (if passes = [] then heap w
               else heap_for (heap w) ?chain (Preprocessor (pass_preprocessors (last passes))))"
    using c2 unfolding w2(1) by (simp add: w' emit_def)
  have g3: "\<forall>p \<in> set passes. \<exists>r.
        api_compare env (heap_for (heap w) ?chain (Preprocessor (pass_preprocessors p)))
          scores ?ign p = Inr r \<and> map_of d p = Some r"
    using c3 unfolding w2(1) .
  from n2 rk g1 g2 g3 g4 rr show ?thesis by blast
qed

subsection \<open>The body of the with block\<close>



lemma main_body_frame:
  assumes "main_body env args passes pass0 pre w = (out, w')"
  shows "verbose w' = verbose w \<and> (\<forall>c. out \<noteq> SysExit c) \<and>
         (\<forall>a b c p n. Rank a b c p n \<in> set (core_calls (trace w')) \<longrightarrow>
            Rank a b c p n \<in> set (core_calls (trace w)) \<or> (p = pass0 \<and> n = args_n args))"
proof -
  obtain o1 w1 where c: "collect env args pre w = (o1, w1)"
    by (cases "collect env args pre w")
  note f1 = collect_frame [OF c]
  show ?thesis
  proof (cases o1)
    case (Return x)
    obtain subs archive_subs ignored_subs where x: "x = (subs, archive_subs, ignored_subs)"
      by (cases x)
    from assms c Return x have
      s: "score_and_compare env args passes pass0 subs archive_subs ignored_subs w1 = (out, w')"
      by (simp add: main_body_def then_do_def)
    show ?thesis
    proof (cases "length subs + length archive_subs < 2")
      case True
      with s have "out = Raise (raise_exc ApiError [too_few])" "w' = w1"
        by (simp_all add: score_too_few)
      with f1 show ?thesis by simp
    next
      case False
      from score_enough [OF False s] obtain rest where
        "verbose w' = verbose w1" "\<forall>c. out \<noteq> SysExit c"
        "core_calls (trace w') =
           core_calls (trace w1) @
           Rank subs archive_subs (ignored_files_of (heap w1) ignored_subs) pass0 (args_n args)
             # rest"
        "\<forall>a b c p n. Rank a b c p n \<notin> set rest"
        by blast
      with f1 show ?thesis by auto
    qed
  next
    case (Raise e)
    with assms c have "out = Raise e" "w' = w1"
      by (simp_all add: main_body_def then_do_def)
    with f1 show ?thesis by simp
  next
    case (SysExit c)
    with f1 show ?thesis by simp
  qed
qed

lemma main_body_Return:
  assumes "main_body env args passes pass0 pre w = (Return index, w')"
  shows "\<exists>subs archive_subs ignored_subs w1.
           collect env args pre w = (Return (subs, archive_subs, ignored_subs), w1) \<and>
           score_and_compare env args passes pass0 subs archive_subs ignored_subs w1 =
             (Return index, w')"
proof -
  from then_do_Return [OF assms [unfolded main_body_def]]
  obtain y w1 where "collect env args pre w = (Return y, w1)"
    "(case y of (subs, archive_subs, ignored_subs) \<Rightarrow>
        score_and_compare env args passes pass0 subs archive_subs ignored_subs) w1 =
     (Return index, w')"
    by blast
  then show ?thesis by (cases y) auto
qed

subsection \<open>The context managers and the output path\<close>

lemma profile_exit_frame:
  "verbose (profile_exit env w) = verbose w \<and> heap (profile_exit env w) = heap w \<and>
   core_calls (trace (profile_exit env w)) = core_calls (trace w)"
  by (simp add: profile_exit_def Let_def emit_def core_calls_def)

lemma with_block_cases:
  assumes "with_block env prof body w = (out, w')"
  shows "(prof \<and> \<not> line_profiler env \<and> (\<exists>e. out = Raise e) \<and> w' = w) \<or>
         (\<exists>w1 w2. verbose w1 = verbose w \<and> heap w1 = heap w \<and>
                  core_calls (trace w1) = core_calls (trace w) \<and>
                  body w1 = (out, w2) \<and>
                  verbose w' = verbose w2 \<and> heap w' = heap w2 \<and>
                  core_calls (trace w') = core_calls (trace w2))"
proof (cases "prof \<and> \<not> line_profiler env")
  case True
  with assms show ?thesis
    by (auto simp: with_block_def profile_enter_def then_do_def)
next
  case False
  let ?w1 = "emit (ProgressBar ''Preparing'') (if prof then emit ProfilerEnable w else w)"
  obtain r w2 where b: "body ?w1 = (r, w2)" by (cases "body ?w1")
  let ?w' = "if prof then profile_exit env (emit ProgressBarExit w2) else emit ProgressBarExit w2"
  from False assms b have o: "out = r" "w' = ?w'"
    by (auto simp: with_block_def profile_enter_def then_do_def Let_def split: if_splits)
  have f1: "verbose ?w1 = verbose w" "heap ?w1 = heap w"
    "core_calls (trace ?w1) = core_calls (trace w)"
    by (simp_all add: emit_def core_calls_def)
  have f2: "verbose ?w' = verbose w2" "heap ?w' = heap w2"
    "core_calls (trace ?w') = core_calls (trace w2)"
    by (simp_all add: profile_exit_frame) (simp_all add: emit_def core_calls_def)
  from b o f1 f2 show ?thesis by blast
qed

lemma confirm_output_frame:
  assumes "confirm_output env output w = (out, w')"
  shows "verbose w' = verbose w \<and> heap w' = heap w \<and>
         core_calls (trace w') = core_calls (trace w) \<and>
         (\<forall>c. out = SysExit c \<longrightarrow> c = 1)"
  using assms
  by (auto simp: confirm_output_def Let_def emit_def core_calls_def
           split: if_splits option.splits prod.splits)

subsection \<open>Resolving the passes\<close>

lemma get_passes_Inr:
  "get_passes env names = Inr passes \<Longrightarrow>
     map pass_name passes = names \<and> set passes \<subseteq> set (Pass_registry env)"
proof (induction names arbitrary: passes)
  case Nil
  then show ?case by simp
next
  case (Cons n ns)
  from Cons.prems obtain p ps where
    p: "Pass_get env n = Inr p" and ps: "get_passes env ns = Inr ps" and e: "passes = p # ps"
    by (auto split: sum.splits)
  from p have "pass_name p = n" "p \<in> set (Pass_registry env)"
    by (auto simp: Pass_get_def find_Some_iff split: option.splits)
  with Cons.IH [OF ps] e show ?case by simp
qed

lemma get_passes_known:
  "\<forall>n \<in> set names. n \<in> pass_name ` set (Pass_registry env) \<Longrightarrow>
     \<exists>passes. get_passes env names = Inr passes"
proof (induction names)
  case Nil
  then show ?case by simp
next
  case (Cons n ns)
  then obtain ps where ps: "get_passes env ns = Inr ps" by auto
  from Cons.prems have "n \<in> pass_name ` set (Pass_registry env)" by simp
  then have "find (\<lambda>pass. pass_name pass = n) (Pass_registry env) \<noteq> None"
    by (auto simp: find_None_iff)
  then obtain p where "Pass_get env n = Inr p"
    by (auto simp: Pass_get_def split: option.splits)
  with ps show ?case by simp
qed

lemma get_passes_unknown:
  "\<not> (\<forall>n \<in> set names. n \<in> pass_name ` set (Pass_registry env)) \<Longrightarrow>
     get_passes env names =
       Inl (raise_exc KeyError
              [hd (filter (\<lambda>n. n \<notin> pass_name ` set (Pass_registry env)) names)])"
proof (induction names)
  case Nil
  then show ?case by simp
next
  case (Cons n ns)
  show ?case
  proof (cases "n \<in> pass_name ` set (Pass_registry env)")
    case True
    then have "find (\<lambda>pass. pass_name pass = n) (Pass_registry env) \<noteq> None"
      by (auto simp: find_None_iff)
    then obtain p where p: "Pass_get env n = Inr p"
      by (auto simp: Pass_get_def split: option.splits)
    from True Cons.prems have "\<not> (\<forall>n \<in> set ns. n \<in> pass_name ` set (Pass_registry env))"
      by simp
    from Cons.IH [OF this] p True show ?thesis by simp
  next
    case False
    then have "find (\<lambda>pass. pass_name pass = n) (Pass_registry env) = None"
      by (auto simp: find_None_iff)
    with False show ?thesis by (simp add: Pass_get_def)
  qed
qed

subsection \<open>main\<close>

lemma main_args_frame:
  assumes "main_args env args w = (out, w')"
  shows "verbose w' = args_verbose args \<and> (\<forall>c. out = SysExit c \<longrightarrow> c = 1) \<and>
         (\<forall>a b c p n. Rank a b c p n \<in> set (core_calls (trace w')) \<longrightarrow>
            Rank a b c p n \<in> set (core_calls (trace w)) \<or> n = args_n args)"
proof (cases "resolve_passes env (args_passes args)")
  case (Inl e)
  with assms show ?thesis by (auto simp: main_args_def)
next
  case (Inr passes)
  show ?thesis
  proof (cases passes)
    case Nil
    with Inr assms show ?thesis by (auto simp: main_args_def)
  next
    case (Cons pass0 rest)
    let ?w1 = "if args_profile args \<or> args_debug args
               then w\<lparr>verbose := args_verbose args, api_Executor := FauxExecutor\<rparr>
               else w\<lparr>verbose := args_verbose args\<rparr>"
    let ?pre = "Preprocessor (pass_preprocessors pass0)"
    have f1: "verbose ?w1 = args_verbose args" "trace ?w1 = trace w"
      by simp_all
    have m: "main_args env args w =
               then_do (confirm_output env (args_output args) ?w1)
                 (\<lambda>_ w2.
                    then_do (with_block env (args_profile args)
                               (main_body env args passes pass0 ?pre) w2)
                      (\<lambda>index w3.
                         (Return (),
                          emit (Cprint (''Done! Visit file://'' @
                                        path_str env (path_absolute env index) @
                                        '' in a web browser to see the results.'')
                                  Green Stdout) w3)))"
      using Inr Cons by (simp add: main_args_def Let_def)
    obtain o2 w2 where co: "confirm_output env (args_output args) ?w1 = (o2, w2)"
      by (cases "confirm_output env (args_output args) ?w1")
    note f2 = confirm_output_frame [OF co]
    show ?thesis
    proof (cases o2)
      case (Return u)
      obtain o3 w3 where
        wb: "with_block env (args_profile args) (main_body env args passes pass0 ?pre) w2 =
               (o3, w3)"
        by (cases "with_block env (args_profile args)
                     (main_body env args passes pass0 ?pre) w2")
      have f3: "verbose w3 = verbose w2 \<and> (\<forall>c. o3 \<noteq> SysExit c) \<and>
                (\<forall>a b c p n. Rank a b c p n \<in> set (core_calls (trace w3)) \<longrightarrow>
                   Rank a b c p n \<in> set (core_calls (trace w2)) \<or> n = args_n args)"
        using with_block_cases [OF wb]
      proof (elim disjE conjE exE)
        fix e assume "o3 = Raise e" "w3 = w2"
        then show ?thesis by simp
      next
        fix wa wb
        assume a: "verbose wa = verbose w2" "core_calls (trace wa) = core_calls (trace w2)"
          "main_body env args passes pass0 ?pre wa = (o3, wb)"
          "verbose w3 = verbose wb" "core_calls (trace w3) = core_calls (trace wb)"
        from main_body_frame [OF a(3)] have
          A: "verbose wb = verbose wa" "\<forall>c. o3 \<noteq> SysExit c"
          and R: "\<And>a b c p n. Rank a b c p n \<in> set (core_calls (trace wb)) \<Longrightarrow>
                   Rank a b c p n \<in> set (core_calls (trace wa)) \<or> n = args_n args"
          by blast+
        show ?thesis using A a by (auto dest: R)
      qed
      show ?thesis
      proof (cases o3)
        case r3: (Return index)
        with m co Return wb assms have "out = Return ()"
          "w' = emit (Cprint (''Done! Visit file://'' @
                                        path_str env (path_absolute env index) @
                                        '' in a web browser to see the results.'')
                                  Green Stdout) w3"
          by (simp_all add: then_do_def)
        with f1 f2 f3 show ?thesis by (auto simp: emit_def core_calls_def)
      next
        case (Raise e)
        with m co Return wb assms have "out = Raise e" "w' = w3"
          by (simp_all add: then_do_def)
        with f1 f2 f3 show ?thesis by auto
      next
        case (SysExit c)
        with f3 show ?thesis by simp
      qed
    next
      case (Raise e)
      with m co assms have "out = Raise e" "w' = w2"
        by (simp_all add: then_do_def)
      with f1 f2 show ?thesis by auto
    next
      case (SysExit c)
      with m co assms have "out = SysExit c" "w' = w2"
        by (simp_all add: then_do_def)
      with f1 f2 SysExit show ?thesis by auto
    qed
  qed
qed

lemma main_args_Return:
  assumes "main_args env args w = (Return (), w')"
  shows "\<exists>passes subs archive_subs ignored_subs h scores d.
     resolve_passes env (args_passes args) = Inr passes \<and> passes \<noteq> [] \<and>
     core_calls (trace w') =
       core_calls (trace w) @
       Rank subs archive_subs (ignored_files_of h ignored_subs) (hd passes) (args_n args)
         # map (Compare scores (ignored_files_of h ignored_subs)) passes
         @ [Render d (args_output args)] \<and>
     api_rank env h subs archive_subs (ignored_files_of h ignored_subs)
       (hd passes) (args_n args) = Inr scores \<and>
     heap w' = heap_for h (subs @ archive_subs @ ignored_subs)
                 (Preprocessor (pass_preprocessors (last passes))) \<and>
     (\<forall>p \<in> set passes. \<exists>r.
        api_compare env
          (heap_for h (subs @ archive_subs @ ignored_subs)
             (Preprocessor (pass_preprocessors p)))
          scores (ignored_files_of h ignored_subs) p = Inr r \<and>
        map_of d p = Some r) \<and>
     fst ` set d = set passes"
proof -
  from assms obtain passes where rp: "resolve_passes env (args_passes args) = Inr passes"
    by (cases "resolve_passes env (args_passes args)") (auto simp: main_args_def)
  from assms rp obtain pass0 rest where ps: "passes = pass0 # rest"
    by (cases passes) (auto simp: main_args_def)
  let ?w1 = "if args_profile args \<or> args_debug args
             then w\<lparr>verbose := args_verbose args, api_Executor := FauxExecutor\<rparr>
             else w\<lparr>verbose := args_verbose args\<rparr>"
  let ?pre = "Preprocessor (pass_preprocessors pass0)"
  have f1: "trace ?w1 = trace w" by simp
  have m: "main_args env args w =
             then_do (confirm_output env (args_output args) ?w1)
               (\<lambda>_ w2.
                  then_do (with_block env (args_profile args)
                             (main_body env args passes pass0 ?pre) w2)
                    (\<lambda>index w3.
                       (Return (),
                        emit (Cprint (''Done! Visit file://'' @
                                      path_str env (path_absolute env index) @
                                      '' in a web browser to see the results.'')
                                Green Stdout) w3)))"
    using rp ps by (simp add: main_args_def Let_def)
  from then_do_Return [OF assms [unfolded m]] obtain u w2 where
    co: "confirm_output env (args_output args) ?w1 = (Return u, w2)"
    and r2: "then_do (with_block env (args_profile args)
                        (main_body env args passes pass0 ?pre) w2)
               (\<lambda>index w3.
                  (Return (),
                   emit (Cprint (''Done! Visit file://'' @
                                 path_str env (path_absolute env index) @
                                 '' in a web browser to see the results.'')
                           Green Stdout) w3)) = (Return (), w')"
    by blast
  from then_do_Return [OF r2] obtain index w3 where
    wb: "with_block env (args_profile args) (main_body env args passes pass0 ?pre) w2 =
           (Return index, w3)"
    and w': "w' = emit (Cprint (''Done! Visit file://'' @
                                 path_str env (path_absolute env index) @
                                 '' in a web browser to see the results.'')
                           Green Stdout) w3"
    by auto
  from with_block_cases [OF wb] obtain wa wb where
    a: "heap wa = heap w2" "core_calls (trace wa) = core_calls (trace w2)"
    "main_body env args passes pass0 ?pre wa = (Return index, wb)"
    "heap w3 = heap wb" "core_calls (trace w3) = core_calls (trace wb)"
    by auto
  from main_body_Return [OF a(3)] obtain subs archive_subs ignored_subs wc where
    c: "collect env args ?pre wa = (Return (subs, archive_subs, ignored_subs), wc)"
    and s: "score_and_compare env args passes pass0 subs archive_subs ignored_subs wc =
              (Return index, wb)"
    by blast
  have cw: "core_calls (trace wc) = core_calls (trace w)"
    using collect_frame [OF c] confirm_output_frame [OF co] a(2) f1 by simp
  from score_Return [OF s] obtain scores d where
    sr: "api_rank env (heap wc) subs archive_subs (ignored_files_of (heap wc) ignored_subs)
              pass0 (args_n args) = Inr scores"
    "core_calls (trace wb) =
       core_calls (trace wc) @
       Rank subs archive_subs (ignored_files_of (heap wc) ignored_subs) pass0 (args_n args)
         # map (Compare scores (ignored_files_of (heap wc) ignored_subs)) passes
         @ [Render d (args_output args)]"
    "heap wb =
       (if passes = [] then heap wc
        else heap_for (heap wc) (subs @ archive_subs @ ignored_subs)
               (Preprocessor (pass_preprocessors (last passes))))"
    "\<forall>p \<in> set passes. \<exists>r.
        api_compare env
          (heap_for (heap wc) (subs @ archive_subs @ ignored_subs)
             (Preprocessor (pass_preprocessors p)))
          scores (ignored_files_of (heap wc) ignored_subs) p = Inr r \<and>
        map_of d p = Some r"
    "fst ` set d = set passes"
    by blast
  have g1: "core_calls (trace w') =
       core_calls (trace w) @
       Rank subs archive_subs (ignored_files_of (heap wc) ignored_subs) (hd passes) (args_n args)
         # map (Compare scores (ignored_files_of (heap wc) ignored_subs)) passes
         @ [Render d (args_output args)]"
    using sr(2) cw a(5) ps by (simp add: w' emit_def core_calls_def)
  have g2: "heap w' = heap_for (heap wc) (subs @ archive_subs @ ignored_subs)
                 (Preprocessor (pass_preprocessors (last passes)))"
    using sr(3) a(4) ps by (simp add: w' emit_def)
  have g3: "api_rank env (heap wc) subs archive_subs (ignored_files_of (heap wc) ignored_subs)
              (hd passes) (args_n args) = Inr scores"
    using sr(1) ps by simp
  have g0: "passes \<noteq> []" using ps by simp
  from rp g0 g1 g2 g3 sr(4) sr(5) show ?thesis
    by (intro exI [of _ passes] exI [of _ subs] exI [of _ archive_subs]
              exI [of _ ignored_subs] exI [of _ "heap wc"] exI [of _ scores] exI [of _ d])
       (intro conjI)
qed

lemma main_cases:
  assumes "main env argv w = (out, w')"
  shows "(\<exists>args w0. parse_args env argv w = (Return args, w0) \<and>
                    main_args env args w0 = (out, w')) \<or>
         (\<exists>c. parse_args env argv w = (SysExit c, w') \<and> out = SysExit c)"
proof (cases "parse_args env argv w")
  case (Pair o1 w1)
  show ?thesis
  proof (cases o1)
    case (Return args)
    with Pair assms show ?thesis by (simp add: main_def then_do_def)
  next
    case (Raise e)
    with Pair parse_args_other [OF Pair] show ?thesis
      by (auto simp: ArgParser_error_def)
  next
    case (SysExit c)
    with Pair assms show ?thesis by (simp add: main_def then_do_def)
  qed
qed

lemma in_core_calls: "is_core_call ev \<Longrightarrow> ev \<in> set (core_calls evs) = (ev \<in> set evs)"
  by (simp add: core_calls_def)

lemma excepthook_trace:
  assumes "excepthook exc w = (out, w')"
  shows "core_calls (trace w') = core_calls (trace w) \<and> (out = SysExit 1 \<or> out = Return ())"
  using assms
  by (auto simp: excepthook_def excepthook_exit_def Let_def emit_def core_calls_def
           split: if_splits)

lemma foldl_emit_calls:
  assumes "\<And>x. \<not> is_core_call (f x)"
  shows "core_calls (trace (foldl (\<lambda>w' x. emit (f x) w') w xs)) = core_calls (trace w)"
  by (induction xs arbitrary: w) (simp_all add: emit_def core_calls_def assms)

lemma print_pass_calls: "core_calls (trace (print_pass env w p)) = core_calls (trace w)"
  unfolding print_pass_def
  by (subst foldl_emit_calls) (simp_all add: emit_def core_calls_def)

lemma ListAction_calls:
  "core_calls (trace (foldl (print_pass env) w ps)) = core_calls (trace w)"
  by (induction ps arbitrary: w) (simp_all add: print_pass_calls)

lemma ArgParser_error_calls:
  "ArgParser_error m w = (out, w') \<Longrightarrow> core_calls (trace w') = core_calls (trace w)"
  by (auto simp: ArgParser_error_def emit_def core_calls_def)

lemma parse_known_args_calls:
  "parse_known_args env argv st w = (out, w') \<Longrightarrow>
     core_calls (trace w') = core_calls (trace w)"
proof (induction env argv st w rule: parse_known_args.induct)
  case (3 env xs rest ns seen extras w)
  then show ?case by (cases "xs = []") (auto dest: ArgParser_error_calls)
next
  case (4 env xs rest ns seen extras w)
  then show ?case by (cases "xs = []") (auto dest: ArgParser_error_calls)
next
  case (5 env xs rest ns seen extras w)
  then show ?case by (cases "xs = []") (auto dest: ArgParser_error_calls)
next
  case (6 env xs rest ns seen extras w)
  then show ?case
    using include_frame [of xs w]
    by (cases "xs = []") (auto dest: ArgParser_error_calls)
next
  case (7 env xs rest ns seen extras w)
  then show ?case
    using exclude_frame [of xs w]
    by (cases "xs = []") (auto dest: ArgParser_error_calls)
next
  case (8 env rest ns seen extras w)
  then show ?case by (auto simp: ListAction_call_def ListAction_calls)
next
  case (11 env x rest ns seen extras w)
  then show ?case by (cases "builtin_int env x") (auto dest: ArgParser_error_calls)
next
  case (14 env rest ns seen extras w)
  then show ?case by (auto simp: emit_def core_calls_def)
next
  case (16 env rest ns seen extras w)
  then show ?case by (auto simp: emit_def core_calls_def)
qed (auto split: if_splits)

lemma parse_args_calls:
  assumes "parse_args env argv w = (out, w')"
  shows "core_calls (trace w') = core_calls (trace w)"
proof (cases "parse_known_args env argv (default_args env, False, []) w")
  case (Pair o1 w1)
  note c = parse_known_args_calls [OF Pair]
  show ?thesis
  proof (cases o1)
    case (Return st)
    obtain ns seen extras where st: "st = (ns, seen, extras)" by (cases st)
    show ?thesis
    proof (cases "\<not> seen \<or> extras \<noteq> []")
      case True
      with Pair Return st assms obtain m where "ArgParser_error m w1 = (out, w')"
        by (auto simp: parse_args_def split: if_splits)
      from ArgParser_error_calls [OF this] c show ?thesis by simp
    next
      case False
      with Pair Return st assms c show ?thesis by (auto simp: parse_args_def)
    qed
  next
    case (Raise e)
    with Pair assms c show ?thesis by (simp add: parse_args_def)
  next
    case (SysExit x)
    with Pair assms c show ?thesis by (simp add: parse_args_def)
  qed
qed

lemma main_verbose:
  assumes "main env argv w = (Raise exc, w')"
  shows "verbose w' = (Opt_verbose \<in> set argv)"
proof -
  from main_cases [OF assms] obtain args w0 where
    p: "parse_args env argv w = (Return args, w0)"
    and m: "main_args env args w0 = (Raise exc, w')"
    by auto
  from main_args_frame [OF m] parse_args_Return [OF p] show ?thesis by simp
qed

lemma run_calls:
  "core_calls (trace (snd (run env argv))) =
     core_calls (trace (snd (main env argv initial_world)))"
proof (cases "main env argv initial_world")
  case (Pair out w)
  show ?thesis
  proof (cases out)
    case (Raise e)
    obtain o2 w2 where h: "excepthook e w = (o2, w2)" by (cases "excepthook e w")
    from excepthook_trace [OF h] Pair Raise h show ?thesis
      by (auto simp: run_def)
  qed (simp_all add: Pair run_def)
qed

lemma main_rank_n:
  assumes "main env argv w = (out, w')"
      and "Rank a b c p n \<in> set (core_calls (trace w'))"
      and "core_calls (trace w) = []"
  shows "(n_values argv = [] \<longrightarrow> n = 50) \<and>
         (n_values argv \<noteq> [] \<longrightarrow> builtin_int env (last (n_values argv)) = Some n)"
  using main_cases [OF assms(1)]
proof (elim disjE exE conjE)
  fix args w0
  assume p: "parse_args env argv w = (Return args, w0)"
    and m: "main_args env args w0 = (out, w')"
  from parse_args_Return [OF p] assms(3) have "core_calls (trace w0) = []" by simp
  with main_args_frame [OF m] assms(2) have "n = args_n args" by auto
  with parse_args_Return [OF p] show ?thesis by simp
next
  fix x
  assume "parse_args env argv w = (SysExit x, w')"
  from parse_args_calls [OF this] assms(2,3) show ?thesis by simp
qed

section \<open>The properties\<close>


text \<open>
  Claim C2, as the code has it. A run of the scoring and comparing part of \<^verbatim>\<open>main\<close>
  leaves the path and the files of every submission object as they were, and
  allocates no object, but it overwrites the \<^verbatim>\<open>preprocessor\<close> field of every collected
  submission in place, once per pass: \<^verbatim>\<open>_api.compare\<close> for a pass sees the objects
  carrying that pass's preprocessor, and at the end they carry the preprocessor of the
  last pass. Objects that were not collected keep their preprocessor. The pass is
  passed alongside the submissions all the same: the calls of the core are
  \<^verbatim>\<open>_api.rank\<close> with the first pass, then \<^verbatim>\<open>_api.compare\<close> with each pass in turn, then
  the rendering.
\<close>

theorem compare_sets_preprocessor:
  assumes "score_and_compare env args passes pass0 subs archive_subs ignored_subs w =
             (Return index, w')"
      and "passes \<noteq> []"
  shows "length (heap w') = length (heap w) \<and>
         (\<forall>sub < length (heap w).
            path (heap w' ! sub) = path (heap w ! sub) \<and>
            files (heap w' ! sub) = files (heap w ! sub) \<and>
            preprocessor (heap w' ! sub) =
              (if sub \<in> set (subs @ archive_subs @ ignored_subs)
               then Preprocessor (pass_preprocessors (last passes))
               else preprocessor (heap w ! sub))) \<and>
         (\<exists>scores d.
            core_calls (trace w') =
              core_calls (trace w) @
              Rank subs archive_subs (ignored_files_of (heap w) ignored_subs) pass0 (args_n args)
                # map (Compare scores (ignored_files_of (heap w) ignored_subs)) passes
                @ [Render d (args_output args)] \<and>
            (\<forall>p \<in> set passes. \<exists>r.
               api_compare env
                 (heap_for (heap w) (subs @ archive_subs @ ignored_subs)
                    (Preprocessor (pass_preprocessors p)))
                 scores (ignored_files_of (heap w) ignored_subs) p = Inr r))"
proof -
  from score_Return [OF assms(1)] assms(2) obtain scores d where
    t: "core_calls (trace w') =
          core_calls (trace w) @
          Rank subs archive_subs (ignored_files_of (heap w) ignored_subs) pass0 (args_n args)
            # map (Compare scores (ignored_files_of (heap w) ignored_subs)) passes
            @ [Render d (args_output args)]"
    and h: "heap w' = heap_for (heap w) (subs @ archive_subs @ ignored_subs)
                    (Preprocessor (pass_preprocessors (last passes)))"
    and c: "\<forall>p \<in> set passes. \<exists>r.
               api_compare env
                 (heap_for (heap w) (subs @ archive_subs @ ignored_subs)
                    (Preprocessor (pass_preprocessors p)))
                 scores (ignored_files_of (heap w) ignored_subs) p = Inr r \<and>
               map_of d p = Some r"
    by auto
  have "length (heap w') = length (heap w)"
    by (simp add: h)
  moreover have "\<forall>sub < length (heap w).
            path (heap w' ! sub) = path (heap w ! sub) \<and>
            files (heap w' ! sub) = files (heap w ! sub) \<and>
            preprocessor (heap w' ! sub) =
              (if sub \<in> set (subs @ archive_subs @ ignored_subs)
               then Preprocessor (pass_preprocessors (last passes))
               else preprocessor (heap w ! sub))"
    by (simp add: h heap_for_nth)
  moreover have "\<forall>p \<in> set passes. \<exists>r.
            api_compare env
              (heap_for (heap w) (subs @ archive_subs @ ignored_subs)
                 (Preprocessor (pass_preprocessors p)))
              scores (ignored_files_of (heap w) ignored_subs) p = Inr r"
    using c by blast
  ultimately show ?thesis using t by blast
qed

text \<open>
  Claim C3. When every requested pass name is in the registry, the passes are resolved,
  in the order requested, and no error is raised. Otherwise \<^verbatim>\<open>main\<close> raises the domain
  error whose message is the first requested name that is not registered, followed by
  `` is not a pass, try one of these: '' and the list of all registered names; nothing
  else has happened but the setting of the verbose flag.
\<close>

theorem unknown_pass_reported:
  "(if \<forall>n \<in> set (args_passes args). n \<in> pass_name ` set (Pass_registry env)
    then \<exists>passes. resolve_passes env (args_passes args) = Inr passes \<and>
                  map pass_name passes = args_passes args
    else main_args env args w =
           (Raise (raise_exc ApiError
              [hd (filter (\<lambda>n. n \<notin> pass_name ` set (Pass_registry env)) (args_passes args)) @
               '' is not a pass, try one of these: '' @
               repr_list (map pass_name (Pass_registry env))]),
            w\<lparr>verbose := args_verbose args\<rparr>))"
proof (cases "\<forall>n \<in> set (args_passes args). n \<in> pass_name ` set (Pass_registry env)")
  case True
  from get_passes_known [OF True] obtain passes where
    g: "get_passes env (args_passes args) = Inr passes" by blast
  from get_passes_Inr [OF g] g True show ?thesis
    by (simp add: resolve_passes_def)
next
  case False
  from get_passes_unknown [OF False] have
    "resolve_passes env (args_passes args) =
       Inl (raise_exc ApiError
              [not_a_pass env
                 (hd (filter (\<lambda>n. n \<notin> pass_name ` set (Pass_registry env))
                        (args_passes args)))])"
    by (simp add: resolve_passes_def raise_exc_def issubclass_def)
  with False show ?thesis
    by (simp add: main_args_def not_a_pass_def)
qed

text \<open>
  Claim C4. In a run of \<^verbatim>\<open>main\<close> that returns, the calls of the core are, in this
  order: one call of \<^verbatim>\<open>_api.rank\<close>, with the first requested pass and the parsed
  \<^verbatim>\<open>n\<close>; one call of \<^verbatim>\<open>_api.compare\<close> for each requested pass, in the order requested,
  each on the scores that the ranking returned; one call of \<^verbatim>\<open>_renderer.render\<close>, on
  a dictionary that maps each requested pass to the result of its comparison.
\<close>

theorem rank_once_compare_each_pass:
  assumes "main env argv w = (Return (), w')"
  shows "\<exists>args passes subs archive_subs ignored_subs h scores results.
     fst (parse_args env argv w) = Return args \<and>
     resolve_passes env (args_passes args) = Inr passes \<and> passes \<noteq> [] \<and>
     core_calls (trace w') =
       core_calls (trace w) @
       Rank subs archive_subs (ignored_files_of h ignored_subs) (hd passes) (args_n args)
         # map (Compare scores (ignored_files_of h ignored_subs)) passes
         @ [Render results (args_output args)] \<and>
     api_rank env h subs archive_subs (ignored_files_of h ignored_subs)
       (hd passes) (args_n args) = Inr scores \<and>
     (\<forall>p \<in> set passes. \<exists>r.
        api_compare env
          (heap_for h (subs @ archive_subs @ ignored_subs)
             (Preprocessor (pass_preprocessors p)))
          scores (ignored_files_of h ignored_subs) p = Inr r \<and>
        map_of results p = Some r) \<and>
     fst ` set results = set passes"
proof -
  from main_cases [OF assms] obtain args w0 where
    p: "parse_args env argv w = (Return args, w0)"
    and m: "main_args env args w0 = (Return (), w')"
    by auto
  have t: "trace w0 = trace w" using parse_args_Return [OF p] by simp
  have f: "fst (parse_args env argv w) = Return args" using p by simp
  from main_args_Return [OF m] show ?thesis
  proof (elim exE conjE)
    fix passes subs archive_subs ignored_subs h scores d
    assume r: "resolve_passes env (args_passes args) = Inr passes" "passes \<noteq> []"
      "core_calls (trace w') =
         core_calls (trace w0) @
         Rank subs archive_subs (ignored_files_of h ignored_subs) (hd passes) (args_n args)
           # map (Compare scores (ignored_files_of h ignored_subs)) passes
           @ [Render d (args_output args)]"
      "api_rank env h subs archive_subs (ignored_files_of h ignored_subs)
         (hd passes) (args_n args) = Inr scores"
      "\<forall>p \<in> set passes. \<exists>r.
          api_compare env
            (heap_for h (subs @ archive_subs @ ignored_subs)
               (Preprocessor (pass_preprocessors p)))
            scores (ignored_files_of h ignored_subs) p = Inr r \<and>
          map_of d p = Some r"
      "fst ` set d = set passes"
    from f r show ?thesis
      unfolding t
      by (intro exI [of _ args] exI [of _ passes] exI [of _ subs] exI [of _ archive_subs]
                exI [of _ ignored_subs] exI [of _ h] exI [of _ scores] exI [of _ d])
         (intro conjI)
  qed
qed

text \<open>
  Claim C5, as the code has it. When \<^verbatim>\<open>main\<close> raises, the process exits with status 1.
  A domain error (of the core or of \<^verbatim>\<open>lib50\<close>) that carries arguments is reported by its
  own message; a \<^verbatim>\<open>FileNotFoundError\<close> is reported as ``<filename> not found''; any other
  \<^verbatim>\<open>Exception\<close> or \<^verbatim>\<open>KeyboardInterrupt\<close>, a domain error without arguments included,
  is reported by the fixed generic message; any other exception is not reported by the
  hook. In the three reported cases the traceback is printed after the message exactly
  when \<^verbatim>\<open>--verbose\<close> was given.
\<close>

theorem run_reports_exception:
  assumes "main env argv initial_world = (Raise exc, w)"
  shows "run env argv =
           (1,
            if (issubclass (exc_class exc) ApiError \<or> issubclass (exc_class exc) Lib50Error) \<and>
               exc_args exc \<noteq> [] then
              w\<lparr>trace := trace w @ Cprint (str_exc exc) Red Stderr #
                   (if Opt_verbose \<in> set argv then [PrintException exc] else [])\<rparr>
            else if exc_class exc = FileNotFoundError then
              w\<lparr>trace := trace w @
                   Cprint (format_opt (exc_filename exc) @ '' not found'') Red Stderr #
                   (if Opt_verbose \<in> set argv then [PrintException exc] else [])\<rparr>
            else if issubclass (exc_class exc) Exception \<or>
                    issubclass (exc_class exc) KeyboardInterrupt then
              w\<lparr>trace := trace w @ Cprint generic_message Red Stderr #
                   (if Opt_verbose \<in> set argv then [PrintException exc] else [])\<rparr>
            else w)"
  using assms main_verbose [OF assms]
  by (simp add: run_def excepthook_def excepthook_exit_def Let_def emit_def)

text \<open>
  Claim C6. When the parsing of the command line does not return the arguments, the
  process exits with the status of the parser: 2 when \<^verbatim>\<open>ArgParser.error\<close> reported a
  failure, which always exits with 2, and 0 only after \<^verbatim>\<open>--list\<close>, \<^verbatim>\<open>--version\<close> or
  \<^verbatim>\<open>--help\<close>. When the parsing returns the arguments, the status is 0 if the rest of
  \<^verbatim>\<open>main\<close> returns and 1 in every other case, so a failure after the parsing never
  exits with 2.
\<close>

theorem exit_status_parse_versus_failure:
  "(case parse_args env argv initial_world of
      (Return args, w) \<Rightarrow>
        fst (run env argv) = (if fst (main_args env args w) = Return () then 0 else 1)
    | (Raise e, w) \<Rightarrow> False
    | (SysExit c, w) \<Rightarrow>
        fst (run env argv) = c \<and>
        (c = 2 \<and> (\<exists>m w0. parse_args env argv initial_world = ArgParser_error m w0) \<or>
         c = 0 \<and> (Opt_list \<in> set argv \<or> Opt_version \<in> set argv \<or> Opt_help \<in> set argv))) \<and>
   fst (ArgParser_error message w1) = SysExit 2"
proof (cases "parse_args env argv initial_world")
  case (Pair o1 w0)
  have e2: "fst (ArgParser_error message w1) = SysExit 2"
    by (rule ArgParser_error_exit)
  show ?thesis
  proof (cases o1)
    case (Return args)
    obtain o2 w2 where m: "main_args env args w0 = (o2, w2)"
      by (cases "main_args env args w0")
    have mm: "main env argv initial_world = (o2, w2)"
      using Pair Return m by (simp add: main_def then_do_def)
    have "fst (run env argv) = (if o2 = Return () then 0 else 1)"
    proof (cases o2)
      case r: (Return u)
      with mm show ?thesis by (simp add: run_def)
    next
      case (Raise e)
      obtain o3 w3 where h: "excepthook e w2 = (o3, w3)" by (cases "excepthook e w2")
      from excepthook_trace [OF h] mm Raise h show ?thesis
        by (auto simp: run_def)
    next
      case (SysExit c)
      with main_args_frame [OF m] have "c = 1" by simp
      with mm SysExit show ?thesis by (simp add: run_def)
    qed
    with Pair Return m e2 show ?thesis by simp
  next
    case (Raise e)
    with parse_args_other [OF Pair] show ?thesis
      by (auto simp: ArgParser_error_def)
  next
    case (SysExit c)
    have mm: "main env argv initial_world = (SysExit c, w0)"
      using Pair SysExit by (simp add: main_def then_do_def)
    have r: "fst (run env argv) = c" using mm by (simp add: run_def)
    from parse_args_other [OF Pair] SysExit have
      "(\<exists>m w0'. (SysExit c :: 'a args outcome, w0) = ArgParser_error m w0') \<or>
       c = 0 \<and> (Opt_list \<in> set argv \<or> Opt_version \<in> set argv \<or> Opt_help \<in> set argv)"
      by auto
    moreover have "(\<exists>m w0'. (SysExit c :: 'a args outcome, w0) = ArgParser_error m w0') \<Longrightarrow> c = 2"
      by (auto simp: ArgParser_error_def)
    ultimately show ?thesis using Pair SysExit r e2 by auto
  qed
qed

text \<open>
  Claim C10. Every call of \<^verbatim>\<open>_api.rank\<close> in a run receives \<^verbatim>\<open>n = 50\<close> when the command
  line has no \<^verbatim>\<open>-n\<close>, and otherwise the integer that \<^verbatim>\<open>int\<close> returns for the value of
  the last \<^verbatim>\<open>-n\<close>.
\<close>

theorem rank_receives_n:
  assumes "Rank subs archive_subs ignored_files pass n \<in> set (trace (snd (run env argv)))"
  shows "(n_values argv = [] \<longrightarrow> n = 50) \<and>
         (n_values argv \<noteq> [] \<longrightarrow> builtin_int env (last (n_values argv)) = Some n)"
proof -
  obtain out w' where m: "main env argv initial_world = (out, w')"
    by (cases "main env argv initial_world")
  from assms have "Rank subs archive_subs ignored_files pass n
                     \<in> set (core_calls (trace (snd (run env argv))))"
    by (simp add: core_calls_def)
  then have "Rank subs archive_subs ignored_files pass n \<in> set (core_calls (trace w'))"
    by (simp add: run_calls m)
  moreover have "core_calls (trace initial_world) = []"
    by (simp add: initial_world_def)
  ultimately show ?thesis using main_rank_n [OF m] by blast
qed

lemmas demo_simps = demo_env_def demo_registry_def demo_world_def demo_args_def
  initial_world_def default_args_def

lemmas run_simps = run_def main_def parse_args_def then_do_def main_args_def
  resolve_passes_def Pass_get_def not_a_pass_def confirm_output_def with_block_def
  main_body_def collect_def get_all_def SubmissionFactory_get_def included_files_def
  set_add_def key_of_def score_and_compare_def emit_def ignored_files_of_def
  setattr_preprocessor_def Let_def excepthook_def excepthook_exit_def raise_exc_def
  issubclass_def ArgParser_error_def too_few_def repr_list_def repr_str_def repr_char_def
  str_exc_def


theorem submission_preprocessor_counterexample:
  "fst (main demo_env [Positional [''alice'', ''bob'']] demo_world) = Return () \<and>
   map preprocessor (heap demo_collected) =
     [Preprocessor (pass_preprocessors (hd demo_registry)),
      Preprocessor (pass_preprocessors (hd demo_registry))] \<and>
   map preprocessor (heap (snd (main demo_env [Positional [''alice'', ''bob'']] demo_world))) =
     [Preprocessor (pass_preprocessors (last demo_registry)),
      Preprocessor (pass_preprocessors (last demo_registry))] \<and>
   map path (heap (snd (main demo_env [Positional [''alice'', ''bob'']] demo_world))) =
     [''alice'', ''bob''] \<and>
   Preprocessor (pass_preprocessors (hd demo_registry)) \<noteq>
     Preprocessor (pass_preprocessors (last demo_registry))"
  by (simp add: demo_collected_def demo_simps run_simps)

theorem compare_sets_preprocessor_witness:
  "fst (score_and_compare demo_env (demo_args [''alice'', ''bob'']) demo_registry
          (hd demo_registry) [0, 1] [] [] demo_collected) = Return ''results/index.html'' \<and>
   demo_registry \<noteq> [] \<and>
   length (heap (snd (score_and_compare demo_env (demo_args [''alice'', ''bob''])
                        demo_registry (hd demo_registry) [0, 1] [] [] demo_collected))) = 2 \<and>
   preprocessor (heap (snd (score_and_compare demo_env (demo_args [''alice'', ''bob''])
                              demo_registry (hd demo_registry) [0, 1] [] [] demo_collected)) ! 0) =
     Preprocessor (pass_preprocessors (last demo_registry)) \<and>
   files (heap (snd (score_and_compare demo_env (demo_args [''alice'', ''bob''])
                       demo_registry (hd demo_registry) [0, 1] [] [] demo_collected)) ! 0) =
     [''a.c'', ''b.c''] \<and>
   (\<exists>scores d.
      core_calls (trace (snd (score_and_compare demo_env (demo_args [''alice'', ''bob''])
                               demo_registry (hd demo_registry) [0, 1] [] [] demo_collected))) =
        [Rank [0, 1] [] {} (hd demo_registry) 50,
         Compare scores {} (hd demo_registry),
         Compare scores {} (last demo_registry),
         Render d ''results''])"
proof -
  let ?r = "score_and_compare demo_env (demo_args [''alice'', ''bob'']) demo_registry
              (hd demo_registry) [0, 1] [] [] demo_collected"
  have f: "fst ?r = Return ''results/index.html''"
    by (simp add: demo_collected_def demo_simps run_simps)
  then have h: "?r = (Return ''results/index.html'', snd ?r)"
    by (cases ?r) simp
  have n: "demo_registry \<noteq> []" by (simp add: demo_registry_def)
  have l: "length (heap demo_collected) = 2" "(0 :: nat) < 2"
    "files (heap demo_collected ! 0) = [''a.c'', ''b.c'']"
    by (simp_all add: demo_collected_def demo_simps run_simps)
  have k: "core_calls (trace demo_collected) = []"
    "ignored_files_of (heap demo_collected) [] = {}"
    "args_n (demo_args [''alice'', ''bob'']) = 50"
    "args_output (demo_args [''alice'', ''bob'']) = ''results''"
    "demo_registry = [hd demo_registry, last demo_registry]"
    by (simp_all add: demo_collected_def demo_simps run_simps core_calls_def)
  note t = compare_sets_preprocessor [OF h n]
  from t l have a:
    "length (heap (snd ?r)) = 2 \<and>
     preprocessor (heap (snd ?r) ! 0) = Preprocessor (pass_preprocessors (last demo_registry)) \<and>
     files (heap (snd ?r) ! 0) = [''a.c'', ''b.c'']"
    by simp
  from t obtain scores d where
    "core_calls (trace (snd ?r)) =
       core_calls (trace demo_collected) @
       Rank [0, 1] [] (ignored_files_of (heap demo_collected) []) (hd demo_registry)
         (args_n (demo_args [''alice'', ''bob'']))
         # map (Compare scores (ignored_files_of (heap demo_collected) [])) demo_registry
         @ [Render d (args_output (demo_args [''alice'', ''bob'']))]"
    by blast
  then have "core_calls (trace (snd ?r)) =
       [Rank [0, 1] [] {} (hd demo_registry) 50] @
       map (Compare scores {}) [hd demo_registry, last demo_registry] @ [Render d ''results'']"
    unfolding k(1-4) using k(5) by simp
  then have b: "\<exists>scores d. core_calls (trace (snd ?r)) =
        [Rank [0, 1] [] {} (hd demo_registry) 50,
         Compare scores {} (hd demo_registry),
         Compare scores {} (last demo_registry),
         Render d ''results'']"
    by auto
  from f n a b show ?thesis by blast
qed

theorem unknown_pass_reported_witness:
  "(\<exists>passes. resolve_passes demo_env
                (args_passes ((demo_args [''alice'', ''bob''])\<lparr>args_passes := [''exact'']\<rparr>)) =
                Inr passes \<and>
              map pass_name passes = [''exact'']) \<and>
   main_args demo_env ((demo_args [''alice'', ''bob''])\<lparr>args_passes := [''exact'', ''text'']\<rparr>)
       demo_world =
     (Raise (raise_exc ApiError
               [''text is not a pass, try one of these: '' @
                [CHR ''['', CHR 0x27] @ ''structure'' @ [CHR 0x27, CHR '','', CHR '' '', CHR 0x27] @
                ''exact'' @ [CHR 0x27, CHR '']'']]),
      demo_world\<lparr>verbose := False\<rparr>)"
proof -
  let ?a1 = "(demo_args [''alice'', ''bob''])\<lparr>args_passes := [''exact'']\<rparr>"
  let ?a2 = "(demo_args [''alice'', ''bob''])\<lparr>args_passes := [''exact'', ''text'']\<rparr>"
  have c1: "\<forall>n \<in> set (args_passes ?a1). n \<in> pass_name ` set (Pass_registry demo_env)"
    by (simp add: demo_simps)
  have c2: "\<not> (\<forall>n \<in> set (args_passes ?a2). n \<in> pass_name ` set (Pass_registry demo_env))"
    by (simp add: demo_simps)
  have m: "hd (filter (\<lambda>n. n \<notin> pass_name ` set (Pass_registry demo_env)) (args_passes ?a2)) @
             '' is not a pass, try one of these: '' @
             repr_list (map pass_name (Pass_registry demo_env)) =
           ''text is not a pass, try one of these: '' @
                [CHR ''['', CHR 0x27] @ ''structure'' @ [CHR 0x27, CHR '','', CHR '' '', CHR 0x27] @
                ''exact'' @ [CHR 0x27, CHR '']'']"
    by (simp add: demo_simps repr_list_def repr_str_def repr_char_def Let_def)
  have v: "args_verbose ?a2 = False" "args_passes ?a1 = [''exact'']"
    by (simp_all add: demo_simps)
  from unknown_pass_reported [where args = ?a1 and env = demo_env] c1
  have r1: "\<exists>passes. resolve_passes demo_env (args_passes ?a1) = Inr passes \<and>
                     map pass_name passes = args_passes ?a1"
    by (simp only: if_True)
  from unknown_pass_reported [where args = ?a2 and env = demo_env and w = demo_world] c2
  have r2: "main_args demo_env ?a2 demo_world =
           (Raise (raise_exc ApiError
              [hd (filter (\<lambda>n. n \<notin> pass_name ` set (Pass_registry demo_env)) (args_passes ?a2)) @
               '' is not a pass, try one of these: '' @
               repr_list (map pass_name (Pass_registry demo_env))]),
            demo_world\<lparr>verbose := args_verbose ?a2\<rparr>)"
    by (simp only: if_False)
  from r1 r2 show ?thesis unfolding m v by blast
qed

theorem rank_once_compare_each_pass_witness:
  "fst (main demo_env [Positional [''alice'', ''bob'']] demo_world) = Return () \<and>
   (\<exists>args passes subs archive_subs ignored_subs h scores results.
     fst (parse_args demo_env [Positional [''alice'', ''bob'']] demo_world) = Return args \<and>
     resolve_passes demo_env (args_passes args) = Inr passes \<and> passes \<noteq> [] \<and>
     core_calls (trace (snd (main demo_env [Positional [''alice'', ''bob'']] demo_world))) =
       core_calls (trace demo_world) @
       Rank subs archive_subs (ignored_files_of h ignored_subs) (hd passes) (args_n args)
         # map (Compare scores (ignored_files_of h ignored_subs)) passes
         @ [Render results (args_output args)] \<and>
     api_rank demo_env h subs archive_subs (ignored_files_of h ignored_subs)
       (hd passes) (args_n args) = Inr scores \<and>
     (\<forall>p \<in> set passes. \<exists>r.
        api_compare demo_env
          (heap_for h (subs @ archive_subs @ ignored_subs)
             (Preprocessor (pass_preprocessors p)))
          scores (ignored_files_of h ignored_subs) p = Inr r \<and>
        map_of results p = Some r) \<and>
     fst ` set results = set passes)"
proof -
  let ?m = "main demo_env [Positional [''alice'', ''bob'']] demo_world"
  have h: "?m = (Return (), snd ?m)"
    by (simp add: demo_simps run_simps)
  have a: "fst ?m = Return ()"
    by (simp add: demo_simps run_simps)
  from a rank_once_compare_each_pass [OF h] show ?thesis by (rule conjI)
qed

theorem generic_message_counterexample:
  "\<not> issubclass FileNotFoundError ApiError \<and> \<not> issubclass FileNotFoundError Lib50Error \<and>
   excepthook \<lparr>exc_class = FileNotFoundError, exc_args = [''2'', ''No such file or directory''],
               exc_filename = Some ''alice/a.c''\<rparr>
              (demo_world\<lparr>verbose := False\<rparr>) =
     (SysExit 1,
      demo_world\<lparr>verbose := False, trace := [Cprint ''alice/a.c not found'' Red Stderr]\<rparr>) \<and>
   ''alice/a.c not found'' \<noteq> generic_message"
  by (simp add: demo_simps run_simps format_opt_def generic_message_def)

theorem run_reports_exception_witness:
  "main demo_env [Positional [''alice'', ''bob''], Opt_passes [''text'']] initial_world =
     (Raise (raise_exc ApiError
               [''text is not a pass, try one of these: '' @
                [CHR ''['', CHR 0x27] @ ''structure'' @ [CHR 0x27, CHR '','', CHR '' '', CHR 0x27] @
                ''exact'' @ [CHR 0x27, CHR '']'']]),
      demo_world\<lparr>verbose := False\<rparr>) \<and>
   run demo_env [Positional [''alice'', ''bob''], Opt_passes [''text'']] =
     (1, demo_world\<lparr>verbose := False,
           trace := [Cprint (''text is not a pass, try one of these: '' @
                [CHR ''['', CHR 0x27] @ ''structure'' @ [CHR 0x27, CHR '','', CHR '' '', CHR 0x27] @
                ''exact'' @ [CHR 0x27, CHR '']'']) Red Stderr]\<rparr>)"
proof -
  let ?msg = "''text is not a pass, try one of these: '' @
                [CHR ''['', CHR 0x27] @ ''structure'' @ [CHR 0x27, CHR '','', CHR '' '', CHR 0x27] @
                ''exact'' @ [CHR 0x27, CHR '']'']"
  have h: "main demo_env [Positional [''alice'', ''bob''], Opt_passes [''text'']] initial_world =
             (Raise (raise_exc ApiError [?msg]), demo_world\<lparr>verbose := False\<rparr>)"
    by (simp add: demo_simps run_simps)
  from run_reports_exception [OF h]
  have "run demo_env [Positional [''alice'', ''bob''], Opt_passes [''text'']] =
     (1, demo_world\<lparr>verbose := False, trace := [Cprint ?msg Red Stderr]\<rparr>)"
    by (simp add: raise_exc_def issubclass_def str_exc_def demo_world_def initial_world_def)
  with h show ?thesis by (rule conjI)
qed

theorem exit_status_parse_versus_failure_witness:
  "fst (run demo_env [Positional [''alice''], Opt_n ''x'']) = 2 \<and>
   fst (run demo_env [Positional [''alice'', ''bob''], Opt_passes [''text'']]) = 1 \<and>
   fst (run demo_env [Positional [''alice'', ''bob'']]) = 0 \<and>
   fst (run demo_env [Opt_n ''x'', Opt_help]) = 2 \<and>
   fst (run demo_env [Opt_help, Opt_n ''x'']) = 0"
proof -
  let ?argv4 = "[Opt_n ''x'', Opt_help]"
  let ?argv5 = "[Opt_help, Opt_n ''x'']"
  obtain o4 w4 where q4: "parse_args demo_env ?argv4 initial_world = (o4, w4)"
    by (cases "parse_args demo_env ?argv4 initial_world")
  obtain o5 w5 where q5: "parse_args demo_env ?argv5 initial_world = (o5, w5)"
    by (cases "parse_args demo_env ?argv5 initial_world")
  have "fst (parse_args demo_env ?argv4 initial_world) = SysExit 2"
    by (simp add: demo_simps run_simps)
  with q4 have p4: "o4 = SysExit 2" by simp
  have "fst (parse_args demo_env ?argv5 initial_world) = SysExit 0"
    by (simp add: demo_simps run_simps)
  with q5 have p5: "o5 = SysExit 0" by simp
  from exit_status_parse_versus_failure
         [where env = demo_env and argv = ?argv4, THEN conjunct1]
  have r4: "fst (run demo_env ?argv4) = 2"
    unfolding q4 p4 by simp
  from exit_status_parse_versus_failure
         [where env = demo_env and argv = ?argv5, THEN conjunct1]
  have r5: "fst (run demo_env ?argv5) = 0"
    unfolding q5 p5 by simp
  let ?argv1 = "[Positional [''alice''], Opt_n ''x'']"
  let ?argv2 = "[Positional [''alice'', ''bob''], Opt_passes [''text'']]"
  let ?argv3 = "[Positional [''alice'', ''bob'']]"
  obtain o1 w1 where q1: "parse_args demo_env ?argv1 initial_world = (o1, w1)"
    by (cases "parse_args demo_env ?argv1 initial_world")
  obtain o2 w2 where q2: "parse_args demo_env ?argv2 initial_world = (o2, w2)"
    by (cases "parse_args demo_env ?argv2 initial_world")
  obtain o3 w3 where q3: "parse_args demo_env ?argv3 initial_world = (o3, w3)"
    by (cases "parse_args demo_env ?argv3 initial_world")
  have "fst (parse_args demo_env ?argv1 initial_world) = SysExit 2"
    by (simp add: demo_simps run_simps)
  with q1 have p1: "o1 = SysExit 2" by simp
  have "\<exists>args. fst (parse_args demo_env ?argv2 initial_world) = Return args \<and>
          fst (main_args demo_env args (snd (parse_args demo_env ?argv2 initial_world))) \<noteq>
            Return ()"
    by (simp add: demo_simps run_simps)
  with q2 obtain a2 where p2: "o2 = Return a2" "fst (main_args demo_env a2 w2) \<noteq> Return ()"
    by auto
  have "\<exists>args. fst (parse_args demo_env ?argv3 initial_world) = Return args \<and>
          fst (main_args demo_env args (snd (parse_args demo_env ?argv3 initial_world))) =
            Return ()"
    by (simp add: demo_simps run_simps)
  with q3 obtain a3 where p3: "o3 = Return a3" "fst (main_args demo_env a3 w3) = Return ()"
    by auto
  from exit_status_parse_versus_failure
         [where env = demo_env and argv = ?argv1, THEN conjunct1]
  have r1: "fst (run demo_env ?argv1) = 2"
    unfolding q1 p1 by simp
  from exit_status_parse_versus_failure
         [where env = demo_env and argv = ?argv2, THEN conjunct1] p2(2)
  have r2: "fst (run demo_env ?argv2) = 1"
    unfolding q2 p2(1) by simp
  from exit_status_parse_versus_failure
         [where env = demo_env and argv = ?argv3, THEN conjunct1] p3(2)
  have r3: "fst (run demo_env ?argv3) = 0"
    unfolding q3 p3(1) by simp
  from r1 r2 r3 r4 r5 show ?thesis by blast
qed

theorem get_all_missing_path_counterexample:
  "construct demo_env (patterns demo_world) ''ghost'' (Preprocessor []) =
     Inl \<lparr>exc_class = FileNotFoundError, exc_args = [''2'', ''No such file or directory''],
          exc_filename = Some ''ghost''\<rparr> \<and>
   get_all demo_env [''alice'', ''ghost'', ''bob''] (Preprocessor []) demo_world =
     (Raise \<lparr>exc_class = FileNotFoundError, exc_args = [''2'', ''No such file or directory''],
            exc_filename = Some ''ghost''\<rparr>,
      demo_world\<lparr>heap :=
        [\<lparr>path = ''alice'', files = [''a.c'', ''b.c''], preprocessor = Preprocessor []\<rparr>]\<rparr>) \<and>
   fst (run demo_env [Positional [''alice'', ''ghost'', ''bob'']]) = 1 \<and>
   Cprint ''ghost not found'' Red Stderr \<in>
     set (trace (snd (run demo_env [Positional [''alice'', ''ghost'', ''bob'']])))"
  by (simp add: construct_def demo_simps run_simps format_opt_def)

theorem get_all_deduplicates_witness:
  "get_all demo_env [''alice'', ''nobody'', ''alice'', ''bob''] (Preprocessor []) demo_world =
     (Return [0, 2],
      demo_world\<lparr>heap :=
        [\<lparr>path = ''alice'', files = [''a.c'', ''b.c''], preprocessor = Preprocessor []\<rparr>,
         \<lparr>path = ''alice'', files = [''a.c'', ''b.c''], preprocessor = Preprocessor []\<rparr>,
         \<lparr>path = ''bob'', files = [''main.c''], preprocessor = Preprocessor []\<rparr>]\<rparr>) \<and>
   constructed demo_env (patterns demo_world) [''alice'', ''nobody'', ''alice'', ''bob'']
       (Preprocessor []) =
     [\<lparr>path = ''alice'', files = [''a.c'', ''b.c''], preprocessor = Preprocessor []\<rparr>,
      \<lparr>path = ''alice'', files = [''a.c'', ''b.c''], preprocessor = Preprocessor []\<rparr>,
      \<lparr>path = ''bob'', files = [''main.c''], preprocessor = Preprocessor []\<rparr>] \<and>
   distinct (map (key_of demo_env
                    (heap (snd (get_all demo_env [''alice'', ''nobody'', ''alice'', ''bob'']
                                  (Preprocessor []) demo_world))))
               [0, 2]) \<and>
   get_all demo_env ([''alice'', ''nobody''] @ ''ghost'' # [''bob'']) (Preprocessor [])
       demo_world =
     (Raise \<lparr>exc_class = FileNotFoundError, exc_args = [''2'', ''No such file or directory''],
            exc_filename = Some ''ghost''\<rparr>,
      demo_world\<lparr>heap :=
        [\<lparr>path = ''alice'', files = [''a.c'', ''b.c''], preprocessor = Preprocessor []\<rparr>]\<rparr>)"
proof -
  let ?paths = "[''alice'', ''nobody'', ''alice'', ''bob'']"
  let ?c = "[\<lparr>path = ''alice'', files = [''a.c'', ''b.c''], preprocessor = Preprocessor []\<rparr>,
      \<lparr>path = ''alice'', files = [''a.c'', ''b.c''], preprocessor = Preprocessor []\<rparr>,
      \<lparr>path = ''bob'', files = [''main.c''], preprocessor = Preprocessor []\<rparr>]"
  let ?e = "\<lparr>exc_class = FileNotFoundError, exc_args = [''2'', ''No such file or directory''],
            exc_filename = Some ''ghost''\<rparr>"
  have hyp: "\<forall>p \<in> set ?paths. \<forall>e.
               construct demo_env (patterns demo_world) p (Preprocessor []) = Inl e
               \<longrightarrow> issubclass (exc_class e) ApiError"
    by (auto simp: construct_def included_files_def demo_simps raise_exc_def issubclass_def)
  have c: "constructed demo_env (patterns demo_world) ?paths (Preprocessor []) = ?c"
    by (simp add: construct_def included_files_def demo_simps raise_exc_def issubclass_def)
  have g: "get_all demo_env ?paths (Preprocessor []) demo_world =
             (Return [0, 2], demo_world\<lparr>heap := ?c\<rparr>)"
    by (simp add: demo_simps run_simps)
  have h0: "heap demo_world = []"
    by (simp add: demo_simps)
  from get_all_deduplicates [where env = demo_env and paths = ?paths and w = demo_world
                               and pre = "Preprocessor []", THEN conjunct1, THEN mp, OF hyp]
  obtain subs where
    s: "get_all demo_env ?paths (Preprocessor []) demo_world =
          (Return subs, demo_world\<lparr>heap := heap demo_world @
             constructed demo_env (patterns demo_world) ?paths (Preprocessor [])\<rparr>)"
    and d: "distinct (map (key_of demo_env (heap demo_world @
             constructed demo_env (patterns demo_world) ?paths (Preprocessor []))) subs)"
    by blast
  from s g have "subs = [0, 2]" by simp
  with d have "distinct (map (key_of demo_env (heap demo_world @
             constructed demo_env (patterns demo_world) ?paths (Preprocessor []))) [0, 2])"
    by simp
  then have first: "distinct (map (key_of demo_env
               (heap (snd (get_all demo_env ?paths (Preprocessor []) demo_world)))) [0, 2])"
    unfolding g c h0 by simp
  have hyp2: "(\<forall>x \<in> set [''alice'', ''nobody'']. \<forall>e'.
                 construct demo_env (patterns demo_world) x (Preprocessor []) = Inl e'
                 \<longrightarrow> issubclass (exc_class e') ApiError) \<and>
              construct demo_env (patterns demo_world) ''ghost'' (Preprocessor []) = Inl ?e \<and>
              \<not> issubclass (exc_class ?e) ApiError"
    by (auto simp: construct_def included_files_def demo_simps raise_exc_def issubclass_def)
  have c2: "constructed demo_env (patterns demo_world) [''alice'', ''nobody'']
              (Preprocessor []) =
            [\<lparr>path = ''alice'', files = [''a.c'', ''b.c''], preprocessor = Preprocessor []\<rparr>]"
    by (simp add: construct_def included_files_def demo_simps raise_exc_def issubclass_def)
  from get_all_deduplicates [where env = demo_env and w = demo_world
                               and pre = "Preprocessor []" and xs = "[''alice'', ''nobody'']"
                               and p = "''ghost''" and e = ?e and ys = "[''bob'']",
                             THEN conjunct2, THEN mp, OF hyp2]
  have second: "get_all demo_env ([''alice'', ''nobody''] @ ''ghost'' # [''bob''])
                    (Preprocessor []) demo_world =
     (Raise ?e, demo_world\<lparr>heap :=
        [\<lparr>path = ''alice'', files = [''a.c'', ''b.c''], preprocessor = Preprocessor []\<rparr>]\<rparr>)"
    unfolding c2 h0 by simp
  from g c first second show ?thesis by blast
qed

theorem get_regular_file_witness:
  "path_is_file demo_env (pathlib_Path demo_env ''carol/solo.c'') \<and>
   SubmissionFactory_get
       (demo_env\<lparr>lib50_files := \<lambda>pats p. Inl (raise_exc Lib50Error [''not called''])\<rparr>)
       ''carol/solo.c'' (Preprocessor [])
       (demo_world\<lparr>patterns := [FilePattern Excluded ''*'']\<rparr>) =
     (Return 0,
      demo_world\<lparr>patterns := [FilePattern Excluded ''*''],
                 heap := [\<lparr>path = ''carol'', files = [''solo.c''],
                           preprocessor = Preprocessor []\<rparr>]\<rparr>)"
proof -
  have hyp: "path_is_file demo_env (pathlib_Path demo_env ''carol/solo.c'')"
    by (simp add: demo_simps)
  from get_regular_file [OF hyp, where lf = "\<lambda>pats p. Inl (raise_exc Lib50Error [''not called''])"
                           and pre = "Preprocessor []" and w = demo_world
                           and pats = "[FilePattern Excluded ''*'']"]
  have "SubmissionFactory_get
       (demo_env\<lparr>lib50_files := \<lambda>pats p. Inl (raise_exc Lib50Error [''not called''])\<rparr>)
       ''carol/solo.c'' (Preprocessor [])
       (demo_world\<lparr>patterns := [FilePattern Excluded ''*'']\<rparr>) =
     (Return 0,
      demo_world\<lparr>patterns := [FilePattern Excluded ''*''],
                 heap := [\<lparr>path = ''carol'', files = [''solo.c''],
                           preprocessor = Preprocessor []\<rparr>]\<rparr>)"
    by (simp add: demo_simps)
  with hyp show ?thesis by (rule conjI)
qed

theorem rank_receives_n_witness:
  "Rank [0, 1] [] {} (hd demo_registry) 7 \<in>
     set (trace (snd (run demo_env [Positional [''alice'', ''bob''], Opt_n ''7'']))) \<and>
   n_values [Positional [''alice'', ''bob''], Opt_n ''7''] = [''7''] \<and>
   builtin_int demo_env ''7'' = Some 7 \<and>
   Rank [0, 1] [] {} (hd demo_registry) 50 \<in>
     set (trace (snd (run demo_env [Positional [''alice'', ''bob'']]))) \<and>
   n_values [Positional [''alice'', ''bob'']] = []"
proof -
  have h: "Rank [0, 1] [] {} (hd demo_registry) 7 \<in>
     set (trace (snd (run demo_env [Positional [''alice'', ''bob''], Opt_n ''7''])))"
    by (simp add: demo_simps run_simps)
  have h2: "Rank [0, 1] [] {} (hd demo_registry) 50 \<in>
     set (trace (snd (run demo_env [Positional [''alice'', ''bob'']])))"
    by (simp add: demo_simps run_simps)
  have n: "n_values [Positional [''alice'', ''bob''], Opt_n ''7''] = [''7'']"
          "n_values [Positional [''alice'', ''bob'']] = []"
    by simp_all
  from rank_receives_n [OF h] n have "builtin_int demo_env ''7'' = Some 7"
    by simp
  with h h2 n show ?thesis by blast
qed

end
